theory Spec2Isabelle
  imports Complex_Main "HOL-Library.Word"
begin

section \<open>Python primitives used by the pipeline\<close>

text \<open>
  Strings are lists of characters over ASCII. Exceptions are values of \<open>error\<close>; a
  function that may raise returns \<open>error + 'a\<close> with \<open>Inl\<close> for the raised exception.
  \<open>LibraryError\<close> stands for any exception raised inside OpenCV or scikit-image.
  Logging is not modelled: it changes nothing a caller can observe.
\<close>

datatype error = ValueError | IndexError | IOError | FileExistsError | FileNotFoundError
  | NotADirectoryError | LibraryError

subsection \<open>Strings and paths\<close>

text \<open>\<^verbatim>\<open>os.path.basename\<close> (POSIX flavour): everything after the last slash.\<close>

definition basename :: "string \<Rightarrow> string" where
  "basename p = rev (takeWhile (\<lambda>c. c \<noteq> CHR ''/'') (rev p))"

text \<open>
  \<^verbatim>\<open>os.path.join(a, b)\<close> (POSIX flavour): an absolute second component replaces the
  first; otherwise one slash separates them unless the first is empty or ends in one.
\<close>

definition os_path_join :: "string \<Rightarrow> string \<Rightarrow> string" where
  "os_path_join a b =
     (if b \<noteq> [] \<and> hd b = CHR ''/'' then b
      else if a = [] \<or> last a = CHR ''/'' then a @ b
      else a @ ''/'' @ b)"

text \<open>\<^verbatim>\<open>s.replace('\\', '/')\<close>.\<close>

definition replace_backslash :: "string \<Rightarrow> string" where
  "replace_backslash s = map (\<lambda>c. if c = CHR 0x5C then CHR ''/'' else c) s"

text \<open>\<^verbatim>\<open>s.split(c)\<close> for a separator of one character: never an empty list.\<close>

fun split_char :: "char \<Rightarrow> string \<Rightarrow> string list" where
  "split_char sep [] = [[]]"
| "split_char sep (c # cs) =
     (if c = sep then [] # split_char sep cs
      else (case split_char sep cs of
              [] \<Rightarrow> [[c]]
            | p # ps \<Rightarrow> (c # p) # ps))"

text \<open>
  \<^verbatim>\<open>s.split(sep)\<close> for a separator string, scanning left to right without overlap.
  Python raises on an empty separator; every separator of the pipeline is a non-empty
  constant, and the model answers \<open>[s]\<close> there.
\<close>

function py_split_from :: "string \<Rightarrow> string \<Rightarrow> string \<Rightarrow> string list" where
  "py_split_from sep acc s =
     (if s = [] then [rev acc]
      else if sep \<noteq> [] \<and> take (length sep) s = sep
        then rev acc # py_split_from sep [] (drop (length sep) s)
      else py_split_from sep (hd s # acc) (tl s))"
  by pat_completeness auto
termination
  by (relation "measure (\<lambda>(sep, acc, s). length s)") auto

declare py_split_from.simps [simp del]

definition py_split :: "string \<Rightarrow> string \<Rightarrow> string list" where
  "py_split s sep = py_split_from sep [] s"

text \<open>\<^verbatim>\<open>s.replace(old, new)\<close> for a non-empty \<open>old\<close>: every occurrence, left to right.\<close>

function py_replace :: "string \<Rightarrow> string \<Rightarrow> string \<Rightarrow> string" where
  "py_replace s old new =
     (if s = [] then []
      else if old \<noteq> [] \<and> take (length old) s = old
        then new @ py_replace (drop (length old) s) old new
      else hd s # py_replace (tl s) old new)"
  by pat_completeness auto
termination
  by (relation "measure (\<lambda>(s, old, new). length s)") auto

declare py_replace.simps [simp del]

text \<open>Truth value of an optional string: \<^verbatim>\<open>None\<close> and the empty string are false.\<close>

definition truthy :: "string option \<Rightarrow> bool" where
  "truthy v = (case v of None \<Rightarrow> False | Some s \<Rightarrow> s \<noteq> [])"

subsection \<open>Integers and their decimal strings\<close>

text \<open>The set literal \<^verbatim>\<open>{'0', '1', ..., '9'}\<close> of \<^verbatim>\<open>is_event\<close>: the decimal digits.\<close>

definition digits :: "char set" where
  "digits = set ''0123456789''"

text \<open>The whitespace that \<^verbatim>\<open>int()\<close> skips at both ends of an ASCII string.\<close>

definition is_space :: "char \<Rightarrow> bool" where
  "is_space c = (c \<in> set [CHR 0x09, CHR 0x0A, CHR 0x0B, CHR 0x0C, CHR 0x0D, CHR '' ''])"

definition strip :: "string \<Rightarrow> string" where
  "strip s = rev (dropWhile is_space (rev (dropWhile is_space s)))"

definition digit_val :: "char \<Rightarrow> nat" where
  "digit_val c = of_char c - 48"

text \<open>
  The digits of a decimal literal after its first digit: a single underscore may stand
  between two digits, nothing else is accepted.
\<close>

fun digits_value :: "nat \<Rightarrow> string \<Rightarrow> nat option" where
  "digits_value acc [] = Some acc"
| "digits_value acc (c # cs) =
     (if c \<in> digits then digits_value (10 * acc + digit_val c) cs
      else if c = CHR ''_'' then
        (case cs of
           [] \<Rightarrow> None
         | d # ds \<Rightarrow> if d \<in> digits then digits_value (10 * acc + digit_val d) ds else None)
      else None)"

text \<open>
  \<^verbatim>\<open>int(s)\<close> on a string: surrounding whitespace is dropped, one sign is allowed, then
  a decimal literal. \<open>None\<close> is the \<^verbatim>\<open>ValueError\<close>.
\<close>

definition py_int :: "string \<Rightarrow> int option" where
  "py_int s =
     (let t = strip s;
          negative = (t \<noteq> [] \<and> hd t = CHR ''-'');
          body = (if t \<noteq> [] \<and> (hd t = CHR ''-'' \<or> hd t = CHR ''+'') then tl t else t)
      in case body of
           [] \<Rightarrow> None
         | c # cs \<Rightarrow>
             if c \<in> digits
             then map_option (\<lambda>n. if negative then - int n else int n)
                    (digits_value (digit_val c) cs)
             else None)"

text \<open>\<^verbatim>\<open>str(n)\<close> for an integer, and \<^verbatim>\<open>s.zfill(width)\<close>.\<close>

function digits_of :: "nat \<Rightarrow> string" where
  "digits_of n =
     (if n < 10 then [''0123456789'' ! n]
      else digits_of (n div 10) @ [''0123456789'' ! (n mod 10)])"
  by pat_completeness auto
termination
  by (relation "measure id") auto

declare digits_of.simps [simp del]

definition py_str :: "int \<Rightarrow> string" where
  "py_str n = (if n < 0 then CHR ''-'' # digits_of (nat (- n)) else digits_of (nat n))"

definition zfill :: "nat \<Rightarrow> string \<Rightarrow> string" where
  "zfill width s =
     (if width \<le> length s then s
      else case s of
             [] \<Rightarrow> replicate width CHR ''0''
           | c # cs \<Rightarrow>
               if c = CHR ''+'' \<or> c = CHR ''-''
               then c # replicate (width - length s) CHR ''0'' @ cs
               else replicate (width - length s) CHR ''0'' @ s)"

subsection \<open>Floating-point results\<close>

text \<open>
  A float is a real number, an infinity or not-a-number. The pipeline's own arithmetic
  on floats is one sum of squares of integers and one division, so finite values are
  kept exact; dividing by zero gives what numpy gives.
\<close>

datatype npfloat = Num real | PInf | NInf | NaN

text \<open>Division of a non-negative numerator, as \<^verbatim>\<open>err /= float(h * w)\<close> performs it.\<close>

definition np_div :: "real \<Rightarrow> real \<Rightarrow> npfloat" where
  "np_div x y = (if y \<noteq> 0 then Num (x / y) else if x = 0 then NaN else PInf)"

text \<open>The comparison \<open><\<close> of floats: every comparison with not-a-number is false.\<close>

fun np_less :: "npfloat \<Rightarrow> npfloat \<Rightarrow> bool" where
  "np_less (Num x) (Num y) = (x < y)"
| "np_less (Num x) PInf = True"
| "np_less NInf (Num y) = True"
| "np_less NInf PInf = True"
| "np_less _ _ = False"

text \<open>
  \<^verbatim>\<open>min(xs)\<close> and \<^verbatim>\<open>max(xs)\<close> on a non-empty list: one pass that replaces the
  current answer when the next item is smaller (greater).
\<close>

definition py_min :: "npfloat list \<Rightarrow> npfloat" where
  "py_min xs = foldl (\<lambda>m x. if np_less x m then x else m) (hd xs) (tl xs)"

definition py_max :: "npfloat list \<Rightarrow> npfloat" where
  "py_max xs = foldl (\<lambda>m x. if np_less m x then x else m) (hd xs) (tl xs)"

section \<open>jsonLocalizer.py: event detection\<close>

text \<open>
  The loop of \<^verbatim>\<open>JsonLocalizer.is_event\<close>:
  \<^verbatim>\<open>
  for x in range(len(event_name_set_test)):
      if event_name_set_test[x] == split_path[x]:
          match_count += 1
      elif event_name_set_test[x] == '#' and split_path[x] in digits:
          match_count += 1
      else:
          break
  \<close>
  as a recursion on the index \<open>x\<close> carrying \<open>match_count\<close>. The caller guarantees
  \<open>length event_name_set_test \<le> length split_path\<close>, so every read is in range.
\<close>

function is_event_loop :: "string \<Rightarrow> string \<Rightarrow> nat \<Rightarrow> nat \<Rightarrow> nat" where
  "is_event_loop event_name_set_test split_path x match_count =
     (if x < length event_name_set_test then
        (if event_name_set_test ! x = split_path ! x
           then is_event_loop event_name_set_test split_path (x + 1) (match_count + 1)
         else if event_name_set_test ! x = CHR ''#'' \<and> split_path ! x \<in> digits
           then is_event_loop event_name_set_test split_path (x + 1) (match_count + 1)
         else match_count)
      else match_count)"
  by pat_completeness auto
termination
  by (relation "measure (\<lambda>(p, s, x, m). length p - x)") auto

declare is_event_loop.simps [simp del]

definition is_event :: "string \<Rightarrow> string \<Rightarrow> bool" where
  "is_event event_name_set_test test_path =
     (let split_path = basename test_path in
      if length split_path < length event_name_set_test then False
      else 20 \<le> is_event_loop event_name_set_test split_path 0 0)"

subsection \<open>The specification's reading of the event test\<close>

text \<open>
  A position matches when the characters are equal, or the pattern character is \<open>#\<close>
  and the basename character is a decimal digit.
\<close>

definition char_matches :: "char \<Rightarrow> char \<Rightarrow> bool" where
  "char_matches p b = (p = b \<or> (p = CHR ''#'' \<and> b \<in> digits))"

text \<open>The length of the longest prefix on which pattern and basename match position by position.\<close>

definition matched_prefix_len :: "string \<Rightarrow> string \<Rightarrow> nat" where
  "matched_prefix_len P B = length (takeWhile (\<lambda>(p, b). char_matches p b) (zip P B))"

section \<open>jsonLocalizer.py: discovery over a directory tree\<close>

subsection \<open>The file system\<close>

text \<open>
  A directory tree: a file, or a directory with its entries in enumeration order. Paths
  are the strings the code passes around; the tree is read through their components.
  Symbolic links and the components \<open>.\<close> and \<open>..\<close> are outside the model.
\<close>

datatype node = File | Dir "(string \<times> node) list"

definition path_parts :: "string \<Rightarrow> string list" where
  "path_parts p = filter (\<lambda>s. s \<noteq> []) (split_char CHR ''/'' p)"

fun lookup :: "node \<Rightarrow> string list \<Rightarrow> node option" where
  "lookup n [] = Some n"
| "lookup n (x # xs) =
     (case n of
        File \<Rightarrow> None
      | Dir entries \<Rightarrow>
          (case map_of entries x of
             None \<Rightarrow> None
           | Some child \<Rightarrow> lookup child xs))"

text \<open>\<^verbatim>\<open>Path.exists\<close>, \<^verbatim>\<open>Path.is_dir\<close> and \<^verbatim>\<open>Path.iterdir\<close>.\<close>

definition fs_exists :: "node \<Rightarrow> string \<Rightarrow> bool" where
  "fs_exists fs p = (lookup fs (path_parts p) \<noteq> None)"

definition fs_is_dir :: "node \<Rightarrow> string \<Rightarrow> bool" where
  "fs_is_dir fs p = (case lookup fs (path_parts p) of Some (Dir entries) \<Rightarrow> True | _ \<Rightarrow> False)"

definition fs_iterdir :: "node \<Rightarrow> string \<Rightarrow> error + string list" where
  "fs_iterdir fs p =
     (case lookup fs (path_parts p) of
        None \<Rightarrow> Inl FileNotFoundError
      | Some File \<Rightarrow> Inl NotADirectoryError
      | Some (Dir entries) \<Rightarrow> Inr (map (\<lambda>e. os_path_join p (fst e)) entries))"

text \<open>A new entry of a directory goes to the end of its enumeration; an existing one is replaced in place.\<close>

fun put_entry :: "string \<Rightarrow> node \<Rightarrow> (string \<times> node) list \<Rightarrow> (string \<times> node) list" where
  "put_entry x c [] = [(x, c)]"
| "put_entry x c (e # es) = (if fst e = x then (x, c) # es else e # put_entry x c es)"

text \<open>
  \<^verbatim>\<open>Path.mkdir(parents=True, exist_ok=True)\<close>: missing directories are created along the
  path; a file in the way raises.
\<close>

fun make_dirs_in :: "node \<Rightarrow> string list \<Rightarrow> error + node" where
  "make_dirs_in n [] = (case n of File \<Rightarrow> Inl FileExistsError | Dir entries \<Rightarrow> Inr n)"
| "make_dirs_in n (x # xs) =
     (case n of
        File \<Rightarrow> Inl NotADirectoryError
      | Dir entries \<Rightarrow>
          (case make_dirs_in (case map_of entries x of None \<Rightarrow> Dir [] | Some child \<Rightarrow> child) xs of
             Inl e \<Rightarrow> Inl e
           | Inr child' \<Rightarrow> Inr (Dir (put_entry x child' entries))))"

definition fs_mkdir_parents :: "node \<Rightarrow> string \<Rightarrow> error + node" where
  "fs_mkdir_parents fs p = make_dirs_in fs (path_parts p)"

text \<open>\<^verbatim>\<open>Path(p).parent\<close> as a string: the path without its last component.\<close>

definition dirname :: "string \<Rightarrow> string" where
  "dirname p =
     (let head = rev (dropWhile (\<lambda>c. c = CHR ''/'')
                   (dropWhile (\<lambda>c. c \<noteq> CHR ''/'') (rev p)))
      in if head \<noteq> [] then head
         else if p \<noteq> [] \<and> hd p = CHR ''/'' then ''/''
         else ''.'')"

subsection \<open>Placeholder folders\<close>

text \<open>The two counters of a \<^verbatim>\<open>JsonLocalizer\<close> object.\<close>

record localizer =
  sport_folder_index :: int
  stadium_folder_index :: int

text \<open>
  \<^verbatim>\<open>
  while (folder / ...).exists():
      index += 1
      folder = parent_dir / f'..._{index}'
  \<close>
  The loop ends at the first index from \<open>i\<close> on that is not taken; \<open>None\<close> if there is none.
\<close>

partial_function (option) first_free_index :: "(int \<Rightarrow> bool) \<Rightarrow> int \<Rightarrow> int option" where
  "first_free_index taken i = (if taken i then first_free_index taken (i + 1) else Some i)"

declare first_free_index.simps [code]

text \<open>The placeholder subpaths whose existence the two loops test.\<close>

definition stadium_placeholder :: "string \<Rightarrow> int \<Rightarrow> string" where
  "stadium_placeholder parent_dir i =
     os_path_join (os_path_join parent_dir (''stadiumName_'' @ py_str i)) ''categoryName''"

definition sport_placeholder :: "string \<Rightarrow> int \<Rightarrow> string" where
  "sport_placeholder parent_dir i =
     os_path_join (os_path_join (os_path_join parent_dir (''sportType_'' @ py_str i))
       ''stadiumName'') ''categoryName''"

text \<open>
  \<^verbatim>\<open>create_extra_folder\<close>: the tree after the call, the counters after the call and the
  path returned; \<open>Some (Inl e)\<close> when \<^verbatim>\<open>mkdir\<close> raises.
\<close>

definition create_extra_folder ::
  "node \<Rightarrow> localizer \<Rightarrow> string \<Rightarrow> int \<Rightarrow> (error + node \<times> localizer \<times> string) option" where
  "create_extra_folder fs self parent_path drilling_depth =
     (let event_only = basename parent_path in
      if drilling_depth = 2 then
        let parent_dir = dirname parent_path in
        (case first_free_index (\<lambda>i. fs_exists fs (stadium_placeholder parent_dir i))
                (stadium_folder_index self) of
           None \<Rightarrow> None
         | Some i \<Rightarrow>
             let new_folder_path = stadium_placeholder parent_dir i in
             (case fs_mkdir_parents fs new_folder_path of
                Inl e \<Rightarrow> Some (Inl e)
              | Inr fs' \<Rightarrow>
                  Some (Inr (fs', self\<lparr>stadium_folder_index := i\<rparr>,
                             os_path_join new_folder_path event_only))))
      else if drilling_depth = 3 then
        let parent_dir = dirname parent_path in
        (case first_free_index (\<lambda>i. fs_exists fs (sport_placeholder parent_dir i))
                (sport_folder_index self) of
           None \<Rightarrow> None
         | Some i \<Rightarrow>
             let new_folder_path = sport_placeholder parent_dir i in
             (case fs_mkdir_parents fs new_folder_path of
                Inl e \<Rightarrow> Some (Inl e)
              | Inr fs' \<Rightarrow>
                  Some (Inr (fs', self\<lparr>sport_folder_index := i\<rparr>,
                             os_path_join new_folder_path event_only))))
      else Some (Inr (fs, self, parent_path)))"

subsection \<open>Finding the events\<close>

text \<open>\<^verbatim>\<open>_traverse_stadium\<close>: the first category folder that is an event.\<close>

definition traverse_stadium :: "node \<Rightarrow> string \<Rightarrow> string \<Rightarrow> error + string option" where
  "traverse_stadium fs stadium_path event_name_set_test =
     (case fs_iterdir fs stadium_path of
        Inl e \<Rightarrow> Inl e
      | Inr items \<Rightarrow>
          Inr (find (\<lambda>category_path. fs_is_dir fs category_path
                       \<and> is_event event_name_set_test category_path) items))"

text \<open>The loop of \<^verbatim>\<open>_traverse_sport_type\<close> over the entries of a sport folder.\<close>

fun traverse_sport_items ::
  "node \<Rightarrow> localizer \<Rightarrow> string \<Rightarrow> bool \<Rightarrow> string list \<Rightarrow>
   (error + node \<times> localizer \<times> string option) option" where
  "traverse_sport_items fs self event_name_set_test create_folders [] = Some (Inr (fs, self, None))"
| "traverse_sport_items fs self event_name_set_test create_folders (stadium_path # rest) =
     (if \<not> fs_is_dir fs stadium_path
        then traverse_sport_items fs self event_name_set_test create_folders rest
      else if \<not> is_event event_name_set_test stadium_path then
        (case traverse_stadium fs stadium_path event_name_set_test of
           Inl e \<Rightarrow> Some (Inl e)
         | Inr event_path \<Rightarrow>
             if truthy event_path then Some (Inr (fs, self, event_path))
             else traverse_sport_items fs self event_name_set_test create_folders rest)
      else if create_folders then
        (case create_extra_folder fs self stadium_path 2 of
           None \<Rightarrow> None
         | Some (Inl e) \<Rightarrow> Some (Inl e)
         | Some (Inr (fs', self', new_folder_path)) \<Rightarrow> Some (Inr (fs', self', Some new_folder_path)))
      else Some (Inr (fs, self, Some stadium_path)))"

definition traverse_sport_type ::
  "node \<Rightarrow> localizer \<Rightarrow> string \<Rightarrow> string \<Rightarrow> bool \<Rightarrow>
   (error + node \<times> localizer \<times> string option) option" where
  "traverse_sport_type fs self sport_type_path event_name_set_test create_folders =
     (case fs_iterdir fs sport_type_path of
        Inl e \<Rightarrow> Some (Inl e)
      | Inr items \<Rightarrow> traverse_sport_items fs self event_name_set_test create_folders items)"

text \<open>
  The first loop of \<^verbatim>\<open>get_json_files\<close>, over the entries the base folder had when the
  loop started, carrying the tree, the counters and \<^verbatim>\<open>event_path_list\<close>.
\<close>

fun scan_base_items ::
  "string \<Rightarrow> bool \<Rightarrow> string list \<Rightarrow> node \<Rightarrow> localizer \<Rightarrow> string list \<Rightarrow>
   (error + node \<times> localizer \<times> string list) option" where
  "scan_base_items event_name_set_test create_folders [] fs self event_path_list =
     Some (Inr (fs, self, event_path_list))"
| "scan_base_items event_name_set_test create_folders (item # rest) fs self event_path_list =
     (if \<not> fs_is_dir fs item
        then scan_base_items event_name_set_test create_folders rest fs self event_path_list
      else
        let self1 = self\<lparr>stadium_folder_index := 1\<rparr> in
        if \<not> is_event event_name_set_test item then
          (case traverse_sport_type fs self1 item event_name_set_test create_folders of
             None \<Rightarrow> None
           | Some (Inl e) \<Rightarrow> Some (Inl e)
           | Some (Inr (fs', self', event_path)) \<Rightarrow>
               scan_base_items event_name_set_test create_folders rest fs' self'
                 (if truthy event_path then event_path_list @ [the event_path] else event_path_list))
        else if create_folders then
          (case create_extra_folder fs self1 item 3 of
             None \<Rightarrow> None
           | Some (Inl e) \<Rightarrow> Some (Inl e)
           | Some (Inr (fs', self', new_folder_path)) \<Rightarrow>
               scan_base_items event_name_set_test create_folders rest fs' self'
                 (event_path_list @ [new_folder_path]))
        else scan_base_items event_name_set_test create_folders rest fs self1
               (event_path_list @ [item]))"

subsection \<open>Cataloguing the frames\<close>

text \<open>
  One row of the six parallel lists: set folder, frame folder, frame name, descriptor
  folder, descriptor file, event path.
\<close>

type_synonym catalog_row = "string \<times> string \<times> string \<times> string \<times> string \<times> string"

text \<open>
  The body of the innermost loop for one entry of a set folder:
  \<^verbatim>\<open>
  split_string = frame_name.split('F')
  if len(split_string) == 2:
      try:
          int(split_string[-1])
          ...
          if os.path.exists(json_file): (append one row)
      except ValueError:
          pass
  \<close>
\<close>

definition frame_entry :: "node \<Rightarrow> string \<Rightarrow> string \<Rightarrow> string \<Rightarrow> catalog_row option" where
  "frame_entry fs event_path set_path frame_path =
     (if \<not> fs_is_dir fs frame_path then None
      else
        let frame_name = basename frame_path;
            split_string = split_char CHR ''F'' frame_name
        in
        if length split_string = 2 then
          (case py_int (last split_string) of
             None \<Rightarrow> None
           | Some number \<Rightarrow>
               let json_folder = os_path_join (os_path_join frame_path ''Render'') ''Json'';
                   json_file = os_path_join json_folder ''standAloneRender.json''
               in if fs_exists fs json_file
                  then Some (set_path, frame_path, frame_name, json_folder,
                             replace_backslash json_file, event_path)
                  else None)
        else None)"

text \<open>Loops over lists whose body may raise: the first exception ends the loop.\<close>

fun collect_rows :: "('a \<Rightarrow> error + 'b list) \<Rightarrow> 'a list \<Rightarrow> error + 'b list" where
  "collect_rows f [] = Inr []"
| "collect_rows f (x # xs) =
     (case f x of
        Inl e \<Rightarrow> Inl e
      | Inr rows \<Rightarrow> (case collect_rows f xs of Inl e \<Rightarrow> Inl e | Inr others \<Rightarrow> Inr (rows @ others)))"

definition frames_of_set :: "node \<Rightarrow> string \<Rightarrow> string \<Rightarrow> error + catalog_row list" where
  "frames_of_set fs event_path set_path =
     (if \<not> fs_is_dir fs set_path then Inr []
      else
        (case fs_iterdir fs set_path of
           Inl e \<Rightarrow> Inl e
         | Inr frame_items \<Rightarrow> Inr (List.map_filter (frame_entry fs event_path set_path) frame_items)))"

definition frames_of_event :: "node \<Rightarrow> string \<Rightarrow> error + catalog_row list" where
  "frames_of_event fs event_path =
     (if \<not> fs_exists fs event_path then Inr []
      else
        (case fs_iterdir fs event_path of
           Inl e \<Rightarrow> Inl e
         | Inr set_items \<Rightarrow> collect_rows (frames_of_set fs event_path) set_items))"

text \<open>
  \<^verbatim>\<open>get_json_files\<close>: the tree and the counters after the call and the six lists. The set
  name pattern is accepted and not used, as in the source.
\<close>

definition get_json_files ::
  "node \<Rightarrow> localizer \<Rightarrow> string \<Rightarrow> string \<Rightarrow> string \<Rightarrow> bool \<Rightarrow>
   (error + node \<times> localizer \<times>
      string list \<times> string list \<times> string list \<times> string list \<times> string list \<times> string list) option" where
  "get_json_files fs self json_file_path event_name_set_test set_name_set_test create_folders =
     (let self0 = self\<lparr>sport_folder_index := 1\<rparr> in
      if \<not> fs_exists fs json_file_path then Some (Inr (fs, self0, [], [], [], [], [], []))
      else
        (case fs_iterdir fs json_file_path of
           Inl e \<Rightarrow> Some (Inl e)
         | Inr items \<Rightarrow>
             (case scan_base_items event_name_set_test create_folders items fs self0 [] of
                None \<Rightarrow> None
              | Some (Inl e) \<Rightarrow> Some (Inl e)
              | Some (Inr (fs', self', event_path_list)) \<Rightarrow>
                  (case collect_rows (frames_of_event fs') event_path_list of
                     Inl e \<Rightarrow> Some (Inl e)
                   | Inr rows \<Rightarrow>
                       Some (Inr (fs', self',
                         map (\<lambda>(s, f, n, jd, jf, e). s) rows,
                         map (\<lambda>(s, f, n, jd, jf, e). f) rows,
                         map (\<lambda>(s, f, n, jd, jf, e). n) rows,
                         map (\<lambda>(s, f, n, jd, jf, e). jd) rows,
                         map (\<lambda>(s, f, n, jd, jf, e). jf) rows,
                         map (\<lambda>(s, f, n, jd, jf, e). e) rows))))))"

subsection \<open>Trees to run the discovery on\<close>

definition event_pattern :: string where
  "event_pattern = ''E##_##_##_##_##_##__''"

text \<open>An event directly under the base folder, with one set holding the frames
  \<open>F42\<close>, \<open>F4a\<close> and \<open>aF42\<close>, each with its descriptor file.\<close>

definition descriptor_tree :: node where
  "descriptor_tree = Dir [(''Render'', Dir [(''Json'', Dir [(''standAloneRender.json'', File)])])]"

definition frames_tree :: node where
  "frames_tree =
     Dir [(''base'', Dir [(''E12_34_56_78_90_12__'',
        Dir [(''Set1'', Dir [(''F42'', descriptor_tree),
                             (''F4a'', descriptor_tree),
                             (''aF42'', descriptor_tree)])])])]"

text \<open>A base folder holding one event and nothing else.\<close>

definition shallow_tree :: node where
  "shallow_tree = Dir [(''base'', Dir [(''E12_34_56_78_90_12__'', Dir [])])]"

definition fresh_localizer :: localizer where
  "fresh_localizer = \<lparr> sport_folder_index = 1, stadium_folder_index = 1 \<rparr>"

text \<open>The same base folder after one and after two discoveries with folder creation.\<close>

definition placeholder_tree :: node where
  "placeholder_tree = Dir [(''stadiumName'', Dir [(''categoryName'', Dir [])])]"

definition once_localized_tree :: node where
  "once_localized_tree =
     Dir [(''base'', Dir [(''E12_34_56_78_90_12__'', Dir []),
                          (''sportType_1'', placeholder_tree)])]"

definition twice_localized_tree :: node where
  "twice_localized_tree =
     Dir [(''base'', Dir [(''E12_34_56_78_90_12__'', Dir []),
                          (''sportType_1'', placeholder_tree),
                          (''sportType_2'', placeholder_tree)])]"

section \<open>renderCompare.py: the image comparison engine\<close>

definition TEST_SETS_DIR :: string where "TEST_SETS_DIR = ''testSets''"
definition TEST_SETS_RESULTS_DIR :: string where "TEST_SETS_RESULTS_DIR = ''testSets_results''"
definition RESULTS_FOLDER :: string where "RESULTS_FOLDER = ''results''"
definition DIFF_IMAGES_FOLDER :: string where "DIFF_IMAGES_FOLDER = ''diff_images''"
definition ALPHA_IMAGES_FOLDER :: string where "ALPHA_IMAGES_FOLDER = ''alpha_images''"
definition COMPARE_RESULT_XML :: string where "COMPARE_RESULT_XML = ''compareResult.xml''"

subsection \<open>Images\<close>

text \<open>
  A grayscale image is a two-dimensional array of unsigned bytes, stored row by row; a
  colour image as \<^verbatim>\<open>cv2.imread\<close> returns it has three channels per pixel.
\<close>

record gray_image =
  rows :: nat
  cols :: nat
  pixels :: "8 word list"

record color_image =
  crows :: nat
  ccols :: nat
  bgr :: "(8 word \<times> 8 word \<times> 8 word) list"

definition shape :: "gray_image \<Rightarrow> nat \<times> nat" where
  "shape im = (rows im, cols im)"

definition cshape :: "color_image \<Rightarrow> nat \<times> nat \<times> nat" where
  "cshape im = (crows im, ccols im, 3)"

text \<open>\<^verbatim>\<open>astype("float")\<close> on one byte.\<close>

definition as_float :: "8 word \<Rightarrow> real" where
  "as_float p = real (unat p)"

text \<open>
  \<^verbatim>\<open>
  if image_a.shape != image_b.shape:
      raise ValueError(...)
  err = np.sum((image_a.astype("float") - image_b.astype("float")) ** 2)
  err /= float(image_a.shape[0] * image_a.shape[1])
  return err
  \<close>
\<close>

definition mean_squared_error :: "gray_image \<Rightarrow> gray_image \<Rightarrow> error + npfloat" where
  "mean_squared_error image_a image_b =
     (if shape image_a \<noteq> shape image_b then Inl ValueError
      else
        let err = (\<Sum>(a, b) \<leftarrow> zip (pixels image_a) (pixels image_b). (as_float a - as_float b)\<^sup>2)
        in Inr (np_div err (real (fst (shape image_a) * snd (shape image_a)))))"

text \<open>A grayscale image in the sense of the specification: at least one pixel, and as many
  stored bytes as its shape says.\<close>

definition gray_image_ok :: "gray_image \<Rightarrow> bool" where
  "gray_image_ok im = (0 < rows im \<and> 0 < cols im \<and> length (pixels im) = rows im * cols im)"

subsection \<open>The world outside the engine\<close>

text \<open>
  OpenCV, scikit-image and the file system are collaborators; what they answer is a
  parameter of the model.
  \<^item> \<open>path_exists\<close>: \<^verbatim>\<open>os.path.exists\<close>;
  \<^item> \<open>collect_image_paths\<close>: the directory scan \<^verbatim>\<open>_collect_image_paths\<close> (the sorted image
    paths of both versions and the two version directories found);
  \<^item> \<open>mkdir\<close>: whether \<^verbatim>\<open>Path(p).mkdir(parents=True, exist_ok=True)\<close> succeeds;
  \<^item> \<open>imread\<close>: \<^verbatim>\<open>cv2.imread\<close>, \<open>None\<close> for an unreadable file;
  \<^item> \<open>cvtColor\<close>: \<^verbatim>\<open>cv2.cvtColor(_, cv2.COLOR_BGR2GRAY)\<close>, which does not raise on the
    three-channel image that \<^verbatim>\<open>cv2.imread\<close> returns;
  \<^item> \<open>ssim\<close>: \<^verbatim>\<open>structural_similarity\<close>, which may raise;
  \<^item> \<open>write_artifacts\<close>: the rest of the loop body (difference image, colour map, mask,
    dilation and the two \<^verbatim>\<open>cv2.imwrite\<close> calls); false when one of the calls raises;
  \<^item> \<open>write_file\<close>: whether opening and writing the report file succeeds.
\<close>

record cv_env =
  path_exists :: "string \<Rightarrow> bool"
  collect_image_paths ::
    "string \<Rightarrow> string \<Rightarrow> string \<Rightarrow> string list \<times> string list \<times> string option \<times> string option"
  mkdir :: "string \<Rightarrow> bool"
  imread :: "string \<Rightarrow> color_image option"
  cvtColor :: "color_image \<Rightarrow> gray_image"
  ssim :: "gray_image \<Rightarrow> gray_image \<Rightarrow> error + npfloat"
  write_artifacts :: "string \<Rightarrow> string \<Rightarrow> gray_image \<Rightarrow> gray_image \<Rightarrow> bool"
  write_file :: "string \<Rightarrow> bool"

subsection \<open>The report\<close>

text \<open>
  The document written by \<^verbatim>\<open>write_to_xml_file\<close>, element by element. Numbers are kept
  as numbers: the file holds their \<^verbatim>\<open>str()\<close>.
\<close>

record report =
  sourcePath :: string
  testPath :: string
  diffPath :: string
  alphaPath :: string
  origFreeDView :: string
  testFreedview :: string
  eventName :: string
  sportType :: string
  stadiumName :: string
  categoryName :: string
  startFrame :: string
  endFrame :: string
  minVal :: npfloat
  maxVal :: npfloat
  frames :: "(int \<times> npfloat) list"

text \<open>\<^verbatim>\<open>sport_type or ''\<close>.\<close>

definition or_empty :: "string option \<Rightarrow> string" where
  "or_empty v = (case v of None \<Rightarrow> [] | Some s \<Rightarrow> s)"

text \<open>
  \<^verbatim>\<open>write_to_xml_file\<close>. \<open>Inr (file, doc)\<close>: the document \<open>doc\<close> was written to \<open>file\<close>;
  \<open>Inl e\<close>: the exception \<open>e\<close> was raised and nothing was written. The two guards
  raise \<^verbatim>\<open>ValueError\<close>; every exception inside the \<^verbatim>\<open>try\<close> block (a short
  \<open>path_list\<close>, a start frame that is no integer, a failed write) is re-raised as
  \<^verbatim>\<open>IOError\<close>.
\<close>

definition write_to_xml_file ::
  "cv_env \<Rightarrow> string \<Rightarrow> npfloat list list \<Rightarrow> string \<Rightarrow> string \<Rightarrow> string list \<Rightarrow> string \<Rightarrow>
   string \<Rightarrow> string \<Rightarrow> string option \<Rightarrow> string option \<Rightarrow> string option \<Rightarrow> error + string \<times> report" where
  "write_to_xml_file env result_folder compare_type_list start_frame end_frame path_list
       event_name freedview_name_orig freedview_name_tester sport_type stadium_name category_name =
     (if compare_type_list = [] \<or> length compare_type_list < 2 then Inl ValueError
      else
        let ssim_list = compare_type_list ! 1 in
        if ssim_list = [] then Inl ValueError
        else
          let result_xml_file = replace_backslash (os_path_join result_folder COMPARE_RESULT_XML) in
          if length path_list < 5 then Inl IOError
          else
            (case py_int start_frame of
               None \<Rightarrow> Inl IOError
             | Some first \<Rightarrow>
                 if \<not> write_file env result_xml_file then Inl IOError
                 else Inr (result_xml_file,
                   \<lparr> sourcePath = path_list ! 0,
                     testPath = path_list ! 1,
                     diffPath = path_list ! 3,
                     alphaPath = path_list ! 4,
                     origFreeDView = freedview_name_orig,
                     testFreedview = freedview_name_tester,
                     eventName = event_name,
                     sportType = or_empty sport_type,
                     stadiumName = or_empty stadium_name,
                     categoryName = or_empty category_name,
                     startFrame = start_frame,
                     endFrame = end_frame,
                     minVal = py_min ssim_list,
                     maxVal = py_max ssim_list,
                     frames = map (\<lambda>x. (int x + first, ssim_list ! x)) [0 ..< length ssim_list] \<rparr>)))"

text \<open>\<^verbatim>\<open>_extract_metadata_from_path\<close>: (event_name, sport_type, stadium_name, category_name).\<close>

definition extract_metadata_from_path :: "string \<Rightarrow> string \<times> string \<times> string \<times> string" where
  "extract_metadata_from_path result_folder =
     (let result_structure = py_split result_folder TEST_SETS_RESULTS_DIR in
      if length result_structure < 2 then ([], [], [], [])
      else
        let split_string = filter (\<lambda>s. s \<noteq> []) (split_char CHR ''/'' (result_structure ! 1)) in
        if length split_string = 5 then (split_string ! 0, [], [], [])
        else if length split_string = 6 then (split_string ! 1, split_string ! 0, [], [])
        else if length split_string = 7 then (split_string ! 2, split_string ! 0, split_string ! 1, [])
        else if 8 \<le> length split_string
          then (split_string ! 3, split_string ! 0, split_string ! 1, split_string ! 2)
        else ([], [], [], []))"

subsection \<open>The comparison loop\<close>

text \<open>The three accumulators of the loop in \<^verbatim>\<open>render_compare_do_it\<close>.\<close>

record compare_state =
  result_mse_list :: "npfloat list"
  result_ssim_list :: "npfloat list"
  failed_comparisons :: nat

text \<open>
  One pass of the loop body for index \<open>i\<close> and the pair of paths at that index.
  An unreadable image or a shape mismatch skips the pair; \<^verbatim>\<open>ValueError\<close> from
  \<^verbatim>\<open>mean_squared_error\<close> and any exception from \<^verbatim>\<open>ssim\<close> are replaced by \<open>0.0\<close>;
  any other exception reaches the outer handler, which counts a failure and goes on
  with what was appended so far.
\<close>

definition compare_frame ::
  "cv_env \<Rightarrow> string \<Rightarrow> string \<Rightarrow> int \<Rightarrow> compare_state \<Rightarrow> nat \<times> string \<times> string \<Rightarrow> compare_state" where
  "compare_frame env diff_folder alpha_folder start_frame st item =
     (case item of (i, orig_image_path, test_image_path) \<Rightarrow>
       (case (imread env orig_image_path, imread env test_image_path) of
          (Some source_frame, Some tested_frame) \<Rightarrow>
            if cshape source_frame \<noteq> cshape tested_frame
            then st\<lparr>failed_comparisons := failed_comparisons st + 1\<rparr>
            else
              let source_frame_gr = cvtColor env source_frame;
                  tested_frame_gr = cvtColor env tested_frame;
                  after_mse = (\<lambda>mse_result.
                    let st1 = st\<lparr>result_mse_list := result_mse_list st @ [mse_result]\<rparr>;
                        ssim_result = (case ssim env source_frame_gr tested_frame_gr of
                                         Inl e \<Rightarrow> Num 0
                                       | Inr v \<Rightarrow> v);
                        st2 = st1\<lparr>result_ssim_list := result_ssim_list st1 @ [ssim_result]\<rparr>;
                        frame_number = start_frame + int i;
                        counter = zfill 4 (py_str frame_number);
                        diff_image_path = os_path_join diff_folder (counter @ ''.jpg'');
                        alpha_image_path = os_path_join alpha_folder (counter @ ''.png'')
                    in if write_artifacts env diff_image_path alpha_image_path
                            source_frame_gr tested_frame_gr
                       then st2
                       else st2\<lparr>failed_comparisons := failed_comparisons st2 + 1\<rparr>)
              in (case mean_squared_error source_frame_gr tested_frame_gr of
                    Inl e \<Rightarrow>
                      if e = ValueError then after_mse (Num 0)
                      else st\<lparr>failed_comparisons := failed_comparisons st + 1\<rparr>
                  | Inr mse_result \<Rightarrow> after_mse mse_result)
        | _ \<Rightarrow> st\<lparr>failed_comparisons := failed_comparisons st + 1\<rparr>))"

definition empty_state :: compare_state where
  "empty_state = \<lparr> result_mse_list = [], result_ssim_list = [], failed_comparisons = 0 \<rparr>"

text \<open>\<^verbatim>\<open>for i, (orig_image_path, test_image_path) in enumerate(zip(...))\<close>.\<close>

definition compare_loop ::
  "cv_env \<Rightarrow> string \<Rightarrow> string \<Rightarrow> int \<Rightarrow> string list \<Rightarrow> string list \<Rightarrow> compare_state" where
  "compare_loop env diff_folder alpha_folder start_frame image_orig_list image_tester_list =
     foldl (compare_frame env diff_folder alpha_folder start_frame) empty_state
       (zip [0 ..< length image_orig_list] (zip image_orig_list image_tester_list))"

subsection \<open>One comparison run\<close>

text \<open>
  What a run leaves behind: the report written, if any, and the final accumulators of
  the loop.
\<close>

record compare_outcome =
  report_file :: "(string \<times> report) option"
  loop_state :: compare_state

text \<open>
  \<^verbatim>\<open>render_compare_do_it\<close>. \<open>Inl e\<close> would be an exception leaving the function; the
  source answers every failure by logging and returning, also a failure of
  \<^verbatim>\<open>write_to_xml_file\<close>, so every path of the model is an \<open>Inr\<close>.
\<close>

definition render_compare_do_it ::
  "cv_env \<Rightarrow> string \<Rightarrow> string list \<Rightarrow> string list \<Rightarrow> string \<Rightarrow> string \<Rightarrow> string \<Rightarrow> string \<Rightarrow>
   error + compare_outcome" where
  "render_compare_do_it env folder_frame_path image_orig_list image_tester_list
       freedview_path_orig freedview_path_tester freedview_name_orig freedview_name_tester =
     (let nothing = Inr \<lparr> report_file = None, loop_state = empty_state \<rparr> in
      if image_orig_list = [] \<or> image_tester_list = [] then nothing
      else if length image_orig_list \<noteq> length image_tester_list then nothing
      else
        (case py_int (hd (split_char CHR ''.'' (basename (image_orig_list ! 0)))) of
           None \<Rightarrow> nothing
         | Some start_frame \<Rightarrow>
             let result_folder = replace_backslash (os_path_join folder_frame_path RESULTS_FOLDER) in
             if \<not> mkdir env result_folder then nothing
             else
               let (event_name, sport_type, stadium_name, category_name) =
                     extract_metadata_from_path result_folder;
                   diff_folder = replace_backslash (os_path_join result_folder DIFF_IMAGES_FOLDER)
               in
               if \<not> mkdir env diff_folder then nothing
               else
                 let alpha_folder = replace_backslash (os_path_join result_folder ALPHA_IMAGES_FOLDER) in
                 if \<not> mkdir env alpha_folder then nothing
                 else
                   let path_list = [freedview_path_orig, freedview_path_tester, result_folder,
                                    diff_folder, alpha_folder];
                       st = compare_loop env diff_folder alpha_folder start_frame
                              image_orig_list image_tester_list
                   in
                   if result_ssim_list st = [] then Inr \<lparr> report_file = None, loop_state = st \<rparr>
                   else
                     let compare_type_list = [result_mse_list st, result_ssim_list st];
                         start_frame_str = zfill 4 (py_str start_frame);
                         end_frame = int (length image_orig_list) + start_frame - 1;
                         end_frame_str = zfill 4 (py_str end_frame)
                     in (case write_to_xml_file env result_folder compare_type_list
                                 start_frame_str end_frame_str path_list event_name
                                 freedview_name_orig freedview_name_tester
                                 (Some sport_type) (Some stadium_name) (Some category_name) of
                           Inl e \<Rightarrow> Inr \<lparr> report_file = None, loop_state = st \<rparr>
                         | Inr doc \<Rightarrow> Inr \<lparr> report_file = Some doc, loop_state = st \<rparr>)))"

subsection \<open>The caller of a comparison run\<close>

record task =
  task_folder_idx :: nat
  task_folder_frame :: string
  task_freedview_ver :: string
  task_freedview_name_orig :: string
  task_freedview_name_tester :: string
  task_total_folders :: nat

text \<open>
  \<^verbatim>\<open>_compare_single_folder\<close>: its boolean answer, with the outcome of the comparison run
  it started (if it started one). An exception out of the run would be caught and
  answered by \<^verbatim>\<open>False\<close>.
\<close>

definition compare_single_folder :: "cv_env \<Rightarrow> task \<Rightarrow> bool \<times> compare_outcome option" where
  "compare_single_folder env t =
     (let replace_path = py_replace (task_folder_frame t) TEST_SETS_DIR TEST_SETS_RESULTS_DIR;
          freedview_ver_path = os_path_join replace_path (task_freedview_ver t)
      in
      if \<not> path_exists env freedview_ver_path then (False, None)
      else
        (case collect_image_paths env freedview_ver_path
                (task_freedview_name_orig t) (task_freedview_name_tester t) of
           (image_orig_list, image_tester_list, freedview_path_orig, freedview_path_tester) \<Rightarrow>
             if length image_orig_list = length image_tester_list
                \<and> 1 < length image_orig_list
                \<and> truthy freedview_path_orig \<and> truthy freedview_path_tester
             then
               (case render_compare_do_it env freedview_ver_path image_orig_list image_tester_list
                       (the freedview_path_orig) (the freedview_path_tester)
                       (task_freedview_name_orig t) (task_freedview_name_tester t) of
                  Inl e \<Rightarrow> (False, None)
                | Inr out \<Rightarrow> (True, Some out))
             else (False, None)))"

subsection \<open>Vocabulary of the claims about a comparison run\<close>

text \<open>
  The pair of paths at one index was compared: both images loaded and their dimensions
  are the same.
\<close>

definition pair_ok :: "cv_env \<Rightarrow> string \<times> string \<Rightarrow> bool" where
  "pair_ok env p =
     (case (imread env (fst p), imread env (snd p)) of
        (Some a, Some b) \<Rightarrow> cshape a = cshape b
      | _ \<Rightarrow> False)"

text \<open>The SSIM value recorded for a compared pair: what the library returns, or \<open>0.0\<close>
  where it raises.\<close>

definition ssim_or_zero :: "cv_env \<Rightarrow> string \<times> string \<Rightarrow> npfloat" where
  "ssim_or_zero env p =
     (case ssim env (cvtColor env (the (imread env (fst p))))
                    (cvtColor env (the (imread env (snd p)))) of
        Inl e \<Rightarrow> Num 0
      | Inr v \<Rightarrow> v)"

subsection \<open>A small world to run the engine in\<close>

text \<open>
  Three numbered images per version: the first pair loads with equal shapes, the second
  pair has different shapes, the third is unreadable; the SSIM library raises on every
  call. \<open>gray_of\<close> stands in for the colour conversion.
\<close>

definition gray_of :: "color_image \<Rightarrow> gray_image" where
  "gray_of im = \<lparr> rows = crows im, cols = ccols im, pixels = map (\<lambda>(b, g, r). g) (bgr im) \<rparr>"

definition example_orig :: "string list" where
  "example_orig = [''/r/v1/0005.jpg'', ''/r/v1/0006.jpg'', ''/r/v1/0007.jpg'']"

definition example_test :: "string list" where
  "example_test = [''/r/v2/0005.jpg'', ''/r/v2/0006.jpg'', ''/r/v2/0007.jpg'']"

definition example_env :: cv_env where
  "example_env =
     \<lparr> path_exists = (\<lambda>p. True),
       collect_image_paths = (\<lambda>p a b. (example_orig, example_test, Some ''/r/v1'', Some ''/r/v2'')),
       mkdir = (\<lambda>p. True),
       imread = (\<lambda>p.
         if p = ''/r/v1/0005.jpg'' \<or> p = ''/r/v2/0005.jpg'' \<or> p = ''/r/v1/0006.jpg''
           then Some \<lparr> crows = 1, ccols = 1, bgr = [(7, 7, 7)] \<rparr>
         else if p = ''/r/v2/0006.jpg''
           then Some \<lparr> crows = 1, ccols = 2, bgr = [(7, 7, 7), (7, 7, 7)] \<rparr>
         else None),
       cvtColor = gray_of,
       ssim = (\<lambda>a b. Inl LibraryError),
       write_artifacts = (\<lambda>d a x y. True),
       write_file = (\<lambda>p. True) \<rparr>"

text \<open>The same world with every image unreadable, and a task for it.\<close>

definition unreadable_env :: cv_env where
  "unreadable_env = example_env \<lparr> imread := (\<lambda>p. None) \<rparr>"

definition example_task :: task where
  "example_task =
     \<lparr> task_folder_idx = 0,
       task_folder_frame = ''/r/testSets/E/S/F1'',
       task_freedview_ver = ''v1_VS_v2'',
       task_freedview_name_orig = ''v1'',
       task_freedview_name_tester = ''v2'',
       task_total_folders = 1 \<rparr>"

definition example_report :: report where
  "example_report =
     \<lparr> sourcePath = ''/r/v1'', testPath = ''/r/v2'',
       diffPath = ''/r/results/diff_images'', alphaPath = ''/r/results/alpha_images'',
       origFreeDView = ''v1'', testFreedview = ''v2'',
       eventName = [], sportType = [], stadiumName = [], categoryName = [],
       startFrame = ''0005'', endFrame = ''0007'',
       minVal = Num 0, maxVal = Num 0, frames = [(5, Num 0)] \<rparr>"

section \<open>freeDViewRunner.py: render tasks and the worker pool\<close>

definition DYNAMIC_INIS_BACKUP :: string where "DYNAMIC_INIS_BACKUP = ''dynamicINIsBackup''"
definition CAMERA_CONTROL_INI :: string where "CAMERA_CONTROL_INI = ''cameracontrol.ini''"
definition CAMPRESET_INI :: string where "CAMPRESET_INI = ''campreset.ini''"
definition STANDALONE_RENDER :: string where "STANDALONE_RENDER = ''standAloneRender''"
definition TEST_ME_JSON :: string where "TEST_ME_JSON = ''testMe''"
definition ERROR_VALUE :: string where "ERROR_VALUE = ''error''"

text \<open>One entry of \<^verbatim>\<open>render_tasks\<close>.\<close>

record render_task =
  version_index :: nat
  freedview_ver_path :: string
  freedview_ver_name :: string
  json_index :: nat
  json_file_path :: string
  folder_frame :: string
  freedview_ver :: string
  total_renders :: nat

text \<open>
  The nested loops of \<^verbatim>\<open>do_it\<close> that build \<^verbatim>\<open>render_tasks\<close>: one task per version and
  descriptor file, versions outermost.
\<close>

definition make_render_tasks ::
  "string list \<Rightarrow> string list \<Rightarrow> string list \<Rightarrow> string list \<Rightarrow> string \<Rightarrow> render_task list" where
  "make_render_tasks freedview_ver_path_list freedview_ver_name_list json_file_list
       folder_frame_list ver =
     concat (map (\<lambda>i. map (\<lambda>x.
         \<lparr> version_index = i,
           freedview_ver_path = freedview_ver_path_list ! i,
           freedview_ver_name = freedview_ver_name_list ! i,
           json_index = x,
           json_file_path = json_file_list ! x,
           folder_frame = folder_frame_list ! x,
           freedview_ver = ver,
           total_renders = length freedview_ver_path_list * length json_file_list \<rparr>)
       [0 ..< length json_file_list]) [0 ..< length freedview_ver_path_list])"

text \<open>
  What a render task asks of the world:
  \<^item> \<open>file_exists\<close>: \<^verbatim>\<open>os.path.exists\<close>;
  \<^item> \<open>get_data_ini\<close>: \<^verbatim>\<open>getDataINI(file, tag)\<close>;
  \<^item> \<open>frame_range\<close>: the \<^verbatim>\<open>startFrame\<close> and \<^verbatim>\<open>endFrame\<close> of a descriptor file, \<open>None\<close>
    when reading them raises;
  \<^item> \<open>rmtree\<close>, \<open>make_dirs\<close>: whether removing and creating the output directory succeed.
\<close>

record run_env =
  file_exists :: "string \<Rightarrow> bool"
  get_data_ini :: "string \<Rightarrow> string \<Rightarrow> string list"
  frame_range :: "string \<Rightarrow> (int \<times> int) option"
  rmtree :: "string \<Rightarrow> bool"
  make_dirs :: "string \<Rightarrow> bool"

text \<open>
  The answer of \<^verbatim>\<open>_render_single_task\<close>, after its locked increment of the progress
  counter (which is a step of the pool below). Every exception is caught inside and
  answered by \<^verbatim>\<open>False\<close>; \<^verbatim>\<open>run_freedview\<close> returns nothing and handles its own
  failures, so a task that reaches it answers \<^verbatim>\<open>True\<close>.
\<close>

definition render_single_task :: "run_env \<Rightarrow> render_task \<Rightarrow> bool" where
  "render_single_task env t =
     (let camera_control_ini =
            os_path_join (os_path_join (folder_frame t) DYNAMIC_INIS_BACKUP) CAMERA_CONTROL_INI in
      if \<not> file_exists env camera_control_ini then False
      else
        let campreset_ini =
              os_path_join (os_path_join (folder_frame t) DYNAMIC_INIS_BACKUP) CAMPRESET_INI in
        if \<not> file_exists env campreset_ini then False
        else
          (case (get_data_ini env camera_control_ini ''outputWidth'',
                 get_data_ini env camera_control_ini ''outputHeight'') of
             (output_width # _, output_height # _) \<Rightarrow>
               if output_width = ERROR_VALUE \<or> output_height = ERROR_VALUE then False
               else
                 (case (py_int output_width, py_int output_height) of
                    (Some w, Some h) \<Rightarrow>
                      (case frame_range env (json_file_path t) of
                         None \<Rightarrow> False
                       | Some sequence_length \<Rightarrow>
                           let replace_path =
                                 py_replace (folder_frame t) TEST_SETS_DIR TEST_SETS_RESULTS_DIR;
                               freedview_ver_path_dir = os_path_join replace_path (freedview_ver t);
                               output_path = replace_backslash
                                 (os_path_join freedview_ver_path_dir (freedview_ver_name t))
                           in
                           if file_exists env output_path \<and> \<not> rmtree env output_path then False
                           else if \<not> make_dirs env output_path then False
                           else True)
                  | _ \<Rightarrow> False)
           | _ \<Rightarrow> False))"

subsection \<open>The pool\<close>

text \<open>What \<^verbatim>\<open>future.result()\<close> gives: the task's answer, or an exception.\<close>

datatype future_result = Returned bool | Raised error

text \<open>
  The state of \<^verbatim>\<open>do_it\<close> between submitting the tasks and leaving the \<^verbatim>\<open>with\<close> block:
  tasks waiting in the executor's queue, tasks running on a worker, futures that are done
  and not yet handed out by \<^verbatim>\<open>as_completed\<close>, and the three counters.
\<close>

record pool_state =
  queued :: "render_task list"
  running :: "render_task list"
  completed :: "future_result list"
  render_count :: nat
  successful_renders :: nat
  failed_renders :: nat

text \<open>
  The body of the \<^verbatim>\<open>as_completed\<close> loop, run by the submitting thread alone:
  \<^verbatim>\<open>
  try:
      success = future.result()
      if success: self._successful_renders += 1
      else:       self._failed_renders += 1
  except Exception:
      self._failed_renders += 1
  \<close>
\<close>

definition count_result :: "future_result \<Rightarrow> pool_state \<Rightarrow> pool_state" where
  "count_result r s =
     (case r of
        Returned success \<Rightarrow>
          if success then s\<lparr>successful_renders := successful_renders s + 1\<rparr>
          else s\<lparr>failed_renders := failed_renders s + 1\<rparr>
      | Raised e \<Rightarrow> s\<lparr>failed_renders := failed_renders s + 1\<rparr>)"

text \<open>
  One step of the pool with \<open>max_workers\<close> workers. A free worker takes the next queued
  task and, under the lock, increments \<^verbatim>\<open>_render_count\<close>; any running task may finish,
  which completes its future; the submitting thread takes any completed future and
  counts it. Steps of different threads interleave in any order.
\<close>

inductive pool_step :: "int \<Rightarrow> run_env \<Rightarrow> pool_state \<Rightarrow> pool_state \<Rightarrow> bool"
  for max_workers :: int and env :: run_env where
  start:
    "queued s = t # rest \<Longrightarrow> int (length (running s)) < max_workers \<Longrightarrow>
     pool_step max_workers env s
       (s\<lparr>queued := rest, running := running s @ [t], render_count := render_count s + 1\<rparr>)"
| finish:
    "t \<in> set (running s) \<Longrightarrow>
     pool_step max_workers env s
       (s\<lparr>running := remove1 t (running s),
          completed := completed s @ [Returned (render_single_task env t)]\<rparr>)"
| collect:
    "r \<in> set (completed s) \<Longrightarrow>
     pool_step max_workers env s (count_result r (s\<lparr>completed := remove1 r (completed s)\<rparr>))"

text \<open>The counters are reset and every task is submitted before the loop starts.\<close>

definition initial_pool :: "render_task list \<Rightarrow> pool_state" where
  "initial_pool render_tasks =
     \<lparr> queued = render_tasks, running = [], completed = [],
       render_count = 0, successful_renders = 0, failed_renders = 0 \<rparr>"

text \<open>The pool has drained: nothing queued, nothing running, every future counted.\<close>

definition drained :: "pool_state \<Rightarrow> bool" where
  "drained s = (queued s = [] \<and> running s = [] \<and> completed s = [])"

text \<open>
  The states \<^verbatim>\<open>do_it\<close> can be in while the pool works. \<^verbatim>\<open>ThreadPoolExecutor\<close> refuses
  a worker count below one, so no task is ever submitted to such a pool.
\<close>

definition pool_reaches :: "int \<Rightarrow> run_env \<Rightarrow> render_task list \<Rightarrow> pool_state \<Rightarrow> bool" where
  "pool_reaches max_workers env render_tasks s =
     (0 < max_workers \<and> rtranclp (pool_step max_workers env) (initial_pool render_tasks) s)"

text \<open>One schedule: each task in turn is started, finished and counted.\<close>

fun run_in_order :: "run_env \<Rightarrow> render_task list \<Rightarrow> pool_state \<Rightarrow> pool_state" where
  "run_in_order env [] s = s"
| "run_in_order env (t # ts) s =
     run_in_order env ts
       (count_result (Returned (render_single_task env t))
          (s\<lparr>queued := ts, render_count := render_count s + 1\<rparr>))"

subsection \<open>Bookkeeping for the pool\<close>

text \<open>Tasks and futures not yet counted, and those among them that will count as successes.\<close>

definition uncounted :: "pool_state \<Rightarrow> nat" where
  "uncounted s = length (queued s) + length (running s) + length (completed s)"

definition uncounted_successes :: "run_env \<Rightarrow> pool_state \<Rightarrow> nat" where
  "uncounted_successes env s =
     length (filter (render_single_task env) (queued s))
     + length (filter (render_single_task env) (running s))
     + length (filter (\<lambda>r. r = Returned True) (completed s))"

text \<open>A world in which every render succeeds, and two tasks for it.\<close>

definition ready_env :: run_env where
  "ready_env =
     \<lparr> file_exists = (\<lambda>p. True),
       get_data_ini = (\<lambda>p tag. [''1920'']),
       frame_range = (\<lambda>p. Some (1, 10)),
       rmtree = (\<lambda>p. True),
       make_dirs = (\<lambda>p. True) \<rparr>"

definition two_tasks :: "render_task list" where
  "two_tasks = make_render_tasks [''/fd/v1'', ''/fd/v2''] [''v1'', ''v2'']
     [''/r/testSets/E/S/F1/Render/Json/standAloneRender.json''] [''/r/testSets/E/S/F1''] ''v1_VS_v2''"

section \<open>Facts about the Python primitives\<close>

lemma digits_code [code_unfold]:
  "c \<in> digits \<longleftrightarrow> c \<in> set ''0123456789''"
  by (simp add: digits_def)

lemma digit_char_props:
  assumes "d < 10"
  shows "''0123456789'' ! d \<in> digits" "digit_val (''0123456789'' ! d) = d"
    "\<not> is_space (''0123456789'' ! d)"
    "''0123456789'' ! d \<noteq> CHR ''-''" "''0123456789'' ! d \<noteq> CHR ''+''"
proof -
  from assms have "d \<in> {0, 1, 2, 3, 4, 5, 6, 7, 8, 9}"
    by auto
  then consider "d = 0" | "d = 1" | "d = 2" | "d = 3" | "d = 4"
    | "d = 5" | "d = 6" | "d = 7" | "d = 8" | "d = 9"
    by blast
  then show "''0123456789'' ! d \<in> digits" "digit_val (''0123456789'' ! d) = d"
    "\<not> is_space (''0123456789'' ! d)"
    "''0123456789'' ! d \<noteq> CHR ''-''" "''0123456789'' ! d \<noteq> CHR ''+''"
    by (cases; simp add: digits_def digit_val_def is_space_def)+
qed

lemma digits_value_snoc:
  "c \<in> digits \<Longrightarrow> digits_value acc ds = Some v \<Longrightarrow>
     digits_value acc (ds @ [c]) = Some (10 * v + digit_val c)"
proof (induction acc ds rule: digits_value.induct)
  case (1 acc)
  then show ?case by simp
next
  case (2 acc d ds)
  then show ?case
    by (auto split: if_splits list.splits)
qed

lemma digits_value_digits_of: "digits_value 0 (digits_of n) = Some n"
proof (induction n rule: digits_of.induct)
  case (1 n)
  show ?case
  proof (cases "n < 10")
    case True
    then show ?thesis
      by (subst digits_of.simps) (simp add: digit_char_props)
  next
    case False
    have m: "n mod 10 < 10" by simp
    have "digits_value 0 (digits_of (n div 10) @ [''0123456789'' ! (n mod 10)])
            = Some (10 * (n div 10) + digit_val (''0123456789'' ! (n mod 10)))"
      using "1.IH" [OF False] digit_char_props(1) [OF m] by (rule digits_value_snoc [rotated])
    then show ?thesis
      using False digit_char_props(2) [OF m] by (subst digits_of.simps) simp
  qed
qed

lemma digits_not_special:
  assumes "c \<in> digits"
  shows "\<not> is_space c" "c \<noteq> CHR ''-''" "c \<noteq> CHR ''+''"
  using assms by (auto simp: digits_def is_space_def)

lemma set_digits_of: "set (digits_of n) \<subseteq> digits"
proof (induction n rule: digits_of.induct)
  case (1 n)
  show ?case
  proof (cases "n < 10")
    case True
    then show ?thesis
      by (subst digits_of.simps) (simp add: digit_char_props)
  next
    case False
    have "n mod 10 < 10" by simp
    then have "''0123456789'' ! (n mod 10) \<in> digits"
      by (rule digit_char_props)
    then show ?thesis
      using "1.IH" [OF False] False by (subst digits_of.simps) simp
  qed
qed

lemma digits_of_nonempty: "digits_of n \<noteq> []"
  by (subst digits_of.simps) simp

lemma strip_no_space:
  assumes "s \<noteq> []" "\<not> is_space (hd s)" "\<not> is_space (last s)"
  shows "strip s = s"
proof -
  have 1: "dropWhile is_space s = s"
    using assms(1,2) by (cases s) simp_all
  have "rev s \<noteq> []" "\<not> is_space (hd (rev s))"
    using assms(1,3) by (simp_all add: hd_rev)
  then have "dropWhile is_space (rev s) = rev s"
    by (cases "rev s") simp_all
  then show ?thesis
    using 1 by (simp add: strip_def)
qed

lemma digits_value_zeros:
  "digits_value 0 (replicate k CHR ''0'' @ ds) = digits_value 0 ds"
  by (induction k) (simp_all add: digits_def digit_val_def)

lemma py_int_digit_string:
  assumes "ds \<noteq> []" "set ds \<subseteq> digits"
  shows "py_int ds = map_option int (digits_value 0 ds)"
    and "py_int (CHR ''-'' # ds) = map_option (\<lambda>n. - int n) (digits_value 0 ds)"
proof -
  obtain c cs where ds: "ds = c # cs"
    using assms(1) by (cases ds) auto
  have c: "c \<in> digits" and l: "last ds \<in> digits"
    using assms ds by auto
  have s1: "strip ds = ds"
    using assms(1) c l ds by (intro strip_no_space) (simp_all add: digits_not_special)
  have minus: "\<not> is_space CHR ''-''"
    by (simp add: is_space_def)
  have s2: "strip (CHR ''-'' # ds) = CHR ''-'' # ds"
    using assms(1) digits_not_special(1) [OF l] minus by (intro strip_no_space) simp_all
  show "py_int ds = map_option int (digits_value 0 ds)"
    using c digits_not_special(2,3) [OF c]
    by (simp add: py_int_def s1 [unfolded ds] Let_def ds)
  show "py_int (CHR ''-'' # ds) = map_option (\<lambda>n. - int n) (digits_value 0 ds)"
    using c by (simp add: py_int_def s2 [unfolded ds] Let_def ds)
qed

lemma zfill_digits_of:
  "zfill w (digits_of m) = replicate (w - length (digits_of m)) CHR ''0'' @ digits_of m"
proof -
  obtain c cs where ds: "digits_of m = c # cs"
    using digits_of_nonempty [of m] by (cases "digits_of m") auto
  then have "c \<in> digits"
    using set_digits_of [of m] by auto
  then show ?thesis
    using digits_not_special(2,3) [of c] by (simp add: zfill_def ds)
qed

lemma zfill_minus:
  "zfill w (CHR ''-'' # ds) = CHR ''-'' # replicate (w - Suc (length ds)) CHR ''0'' @ ds"
  by (simp add: zfill_def)

text \<open>Reading back a zero-filled decimal string gives the integer it was made from.\<close>

lemma py_int_zfill_py_str: "py_int (zfill w (py_str n)) = Some n"
proof -
  define m where "m = nat \<bar>n\<bar>"
  define k where "k = (if n < 0 then w - Suc (length (digits_of m)) else w - length (digits_of m))"
  define body where "body = replicate k CHR ''0'' @ digits_of m"
  have body: "body \<noteq> []" "set body \<subseteq> digits"
    using digits_of_nonempty [of m] set_digits_of [of m]
    by (auto simp: body_def digits_def)
  have val: "digits_value 0 body = Some m"
    by (simp add: body_def digits_value_zeros digits_value_digits_of)
  show ?thesis
  proof (cases "n < 0")
    case True
    then have "zfill w (py_str n) = CHR ''-'' # body"
      by (simp add: py_str_def zfill_minus body_def k_def m_def)
    then show ?thesis
      using py_int_digit_string(2) [OF body] val True by (simp add: m_def)
  next
    case False
    then have "zfill w (py_str n) = body"
      by (simp add: py_str_def zfill_digits_of body_def k_def m_def)
    then show ?thesis
      using py_int_digit_string(1) [OF body] val False by (simp add: m_def)
  qed
qed

lemma py_int_py_str: "py_int (py_str n) = Some n"
  using py_int_zfill_py_str [of 0 n] by (simp add: zfill_def)

lemma py_str_inj: "py_str a = py_str b \<Longrightarrow> a = b"
  by (metis py_int_py_str option.inject)

section \<open>Event detection: the loop computes the matched prefix\<close>

lemma matched_prefix_len_step:
  assumes "x < length P" "x < length B"
  shows "matched_prefix_len (drop x P) (drop x B) =
           (if char_matches (P ! x) (B ! x)
            then Suc (matched_prefix_len (drop (Suc x) P) (drop (Suc x) B)) else 0)"
proof -
  have "drop x P = P ! x # drop (Suc x) P" "drop x B = B ! x # drop (Suc x) B"
    using assms by (simp_all add: Cons_nth_drop_Suc)
  then show ?thesis
    by (simp add: matched_prefix_len_def)
qed

lemma is_event_loop_counts:
  "length P \<le> length B \<Longrightarrow> x \<le> length P \<Longrightarrow>
     is_event_loop P B x m = m + matched_prefix_len (drop x P) (drop x B)"
proof (induction P B x m rule: is_event_loop.induct)
  case (1 P B x m)
  show ?case
  proof (cases "x < length P")
    case False
    with "1.prems" show ?thesis
      by (subst is_event_loop.simps) (simp add: matched_prefix_len_def)
  next
    case True
    then have inB: "x < length B" using "1.prems" by simp
    note step = matched_prefix_len_step [OF True inB]
    show ?thesis
    proof (cases "P ! x = B ! x")
      case eq: True
      have "is_event_loop P B x m = is_event_loop P B (x + 1) (m + 1)"
        using True eq by (subst is_event_loop.simps) simp
      also have "\<dots> = (m + 1) + matched_prefix_len (drop (x + 1) P) (drop (x + 1) B)"
        using "1.IH"(1) [OF True eq] "1.prems" True by simp
      finally show ?thesis
        using step eq by (simp add: char_matches_def)
    next
      case neq: False
      show ?thesis
      proof (cases "P ! x = CHR ''#'' \<and> B ! x \<in> digits")
        case hash: True
        have "is_event_loop P B x m = is_event_loop P B (x + 1) (m + 1)"
          using True neq hash by (subst is_event_loop.simps) simp
        also have "\<dots> = (m + 1) + matched_prefix_len (drop (x + 1) P) (drop (x + 1) B)"
          using "1.IH"(2) [OF True neq hash] "1.prems" True by simp
        finally show ?thesis
          using step hash by (simp add: char_matches_def)
      next
        case False
        then have nomatch: "\<not> char_matches (P ! x) (B ! x)"
          using neq by (auto simp: char_matches_def)
        have "is_event_loop P B x m = m"
          using True neq False by (subst is_event_loop.simps) auto
        then show ?thesis
          using nomatch step by simp
      qed
    qed
  qed
qed

text \<open>
  Claim C1. For every pattern \<open>P\<close> and path, \<open>is_event\<close> answers true exactly when the
  basename of the path is at least as long as the pattern and the longest prefix on which
  pattern and basename match position by position (equal characters, or \<open>#\<close> against a
  decimal digit, stopping at the first mismatch) has at least 20 characters; in
  particular it answers false for every basename shorter than the pattern.
\<close>

theorem is_event_iff_matched_prefix:
  "(is_event P path \<longleftrightarrow>
      (length P \<le> length (basename path) \<and> 20 \<le> matched_prefix_len P (basename path)))
   \<and> (length (basename path) < length P \<longrightarrow> \<not> is_event P path)"
  using is_event_loop_counts [of P "basename path" 0 0]
  by (auto simp: is_event_def Let_def)

theorem is_event_iff_matched_prefix_witness:
  "is_event ''E##_##_##_##_##_##__'' ''/some/path/E12_34_56_78_90_12__''
   \<and> 20 \<le> matched_prefix_len ''E##_##_##_##_##_##__'' (basename ''/some/path/E12_34_56_78_90_12__'')
   \<and> length (basename ''/some/path/E12'') < length ''E##_##_##_##_##_##__''
   \<and> \<not> is_event ''E##_##_##_##_##_##__'' ''/some/path/E12''"
proof -
  have short: "length (basename ''/some/path/E12'') < length ''E##_##_##_##_##_##__''"
    by (simp add: basename_def)
  have long: "length ''E##_##_##_##_##_##__'' \<le> length (basename ''/some/path/E12_34_56_78_90_12__'')"
    by (simp add: basename_def)
  have pre: "20 \<le> matched_prefix_len ''E##_##_##_##_##_##__'' (basename ''/some/path/E12_34_56_78_90_12__'')"
    by (simp add: basename_def matched_prefix_len_def char_matches_def digits_def)
  show ?thesis
    using short long pre
      is_event_iff_matched_prefix [of "''E##_##_##_##_##_##__''" "''/some/path/E12_34_56_78_90_12__''"]
      is_event_iff_matched_prefix [of "''E##_##_##_##_##_##__''" "''/some/path/E12''"]
    by blast
qed

section \<open>Mean squared error\<close>

lemma sq_err_self: "(\<Sum>(a, b) \<leftarrow> zip xs xs. (as_float a - as_float b)\<^sup>2) = 0"
  by (induction xs) auto

lemma sq_err_sym:
  "(\<Sum>(a, b) \<leftarrow> zip xs ys. (as_float a - as_float b)\<^sup>2) =
   (\<Sum>(a, b) \<leftarrow> zip ys xs. (as_float a - as_float b)\<^sup>2)"
proof (induction xs arbitrary: ys)
  case Nil
  show ?case by simp
next
  case (Cons x xs)
  show ?case
  proof (cases ys)
    case Nil
    then show ?thesis by simp
  next
    case (Cons y ys')
    then show ?thesis
      using Cons.IH [of ys'] by (simp add: power2_commute)
  qed
qed

lemma sq_err_nonneg: "0 \<le> (\<Sum>(a, b) \<leftarrow> zip xs ys. (as_float a - as_float b)\<^sup>2)"
  by (rule sum_list_nonneg) auto

lemma sq_err_pos:
  "length xs = length ys \<Longrightarrow> xs \<noteq> ys \<Longrightarrow>
     0 < (\<Sum>(a, b) \<leftarrow> zip xs ys. (as_float a - as_float b)\<^sup>2)"
proof (induction xs ys rule: list_induct2)
  case Nil
  then show ?case by simp
next
  case (Cons x xs y ys)
  show ?case
  proof (cases "x = y")
    case True
    then have "xs \<noteq> ys" using Cons.prems by simp
    then show ?thesis using Cons.IH True by simp
  next
    case False
    then have "unat x \<noteq> unat y"
      by (simp add: word_unat_eq_iff)
    then have "real (unat x) \<noteq> real (unat y)"
      by (simp only: of_nat_eq_iff not_False_eq_True)
    then have "as_float x \<noteq> as_float y"
      unfolding as_float_def .
    then have "0 < (as_float x - as_float y)\<^sup>2" by simp
    moreover have "0 \<le> (\<Sum>(a, b) \<leftarrow> zip xs ys. (as_float a - as_float b)\<^sup>2)"
      by (rule sq_err_nonneg)
    ultimately have "0 < (as_float x - as_float y)\<^sup>2
        + (\<Sum>(a, b) \<leftarrow> zip xs ys. (as_float a - as_float b)\<^sup>2)"
      by (rule add_pos_nonneg)
    then show ?thesis by simp
  qed
qed

lemma mean_squared_error_raises: "mean_squared_error a b = Inl e \<Longrightarrow> e = ValueError"
  by (auto simp: mean_squared_error_def Let_def split: if_splits)

text \<open>
  Claim C5. On grayscale images of equal dimensions the mean squared error of an image
  with itself is 0, it is positive for two different images, and it does not depend on
  the order of its arguments.
\<close>

theorem mean_squared_error_metric:
  assumes "gray_image_ok A" "gray_image_ok B" "shape A = shape B"
  shows "mean_squared_error A A = Inr (Num 0)
       \<and> (A \<noteq> B \<longrightarrow> (\<exists>v. mean_squared_error A B = Inr (Num v) \<and> 0 < v))
       \<and> mean_squared_error A B = mean_squared_error B A"
proof -
  have n: "0 < rows A * cols A" using assms(1) by (simp add: gray_image_ok_def)
  have len: "length (pixels A) = length (pixels B)"
    using assms by (simp add: gray_image_ok_def shape_def)
  have 1: "mean_squared_error A A = Inr (Num 0)"
    using n by (simp add: mean_squared_error_def shape_def np_div_def sq_err_self)
  have 2: "\<exists>v. mean_squared_error A B = Inr (Num v) \<and> 0 < v" if "A \<noteq> B"
  proof -
    have "pixels A \<noteq> pixels B"
      using that assms(3) by (auto simp: shape_def)
    then have "0 < (\<Sum>(a, b) \<leftarrow> zip (pixels A) (pixels B). (as_float a - as_float b)\<^sup>2)"
      using len by (rule sq_err_pos [rotated])
    then show ?thesis
      using n assms(3) by (simp add: mean_squared_error_def shape_def np_div_def)
  qed
  have 3: "mean_squared_error A B = mean_squared_error B A"
    using assms(3) sq_err_sym [of "pixels A" "pixels B"]
    by (simp add: mean_squared_error_def shape_def)
  show ?thesis using 1 2 3 by blast
qed

theorem mean_squared_error_metric_witness:
  "gray_image_ok \<lparr>rows = 2, cols = 2, pixels = [128, 128, 128, 128]\<rparr>
   \<and> gray_image_ok \<lparr>rows = 2, cols = 2, pixels = [130, 130, 130, 130]\<rparr>
   \<and> shape \<lparr>rows = 2, cols = 2, pixels = [128, 128, 128, 128]\<rparr>
       = shape \<lparr>rows = 2, cols = 2, pixels = [130, 130, 130, 130]\<rparr>
   \<and> mean_squared_error \<lparr>rows = 2, cols = 2, pixels = [128, 128, 128, 128]\<rparr>
        \<lparr>rows = 2, cols = 2, pixels = [128, 128, 128, 128]\<rparr> = Inr (Num 0)
   \<and> mean_squared_error \<lparr>rows = 2, cols = 2, pixels = [128, 128, 128, 128]\<rparr>
        \<lparr>rows = 2, cols = 2, pixels = [130, 130, 130, 130]\<rparr> = Inr (Num 4)
   \<and> mean_squared_error \<lparr>rows = 2, cols = 2, pixels = [130, 130, 130, 130]\<rparr>
        \<lparr>rows = 2, cols = 2, pixels = [128, 128, 128, 128]\<rparr> = Inr (Num 4)"
proof -
  let ?A = "\<lparr>rows = 2, cols = 2, pixels = [128, 128, 128, 128]\<rparr>"
  let ?B = "\<lparr>rows = 2, cols = 2, pixels = [130, 130, 130, 130]\<rparr>"
  have okA: "gray_image_ok ?A" and okB: "gray_image_ok ?B"
    by (simp_all add: gray_image_ok_def)
  have sh: "shape ?A = shape ?B"
    by (simp add: shape_def)
  have val: "mean_squared_error ?A ?B = Inr (Num 4)"
    by (simp add: mean_squared_error_def shape_def np_div_def as_float_def)
  show ?thesis
    using okA okB sh val mean_squared_error_metric [OF okA okB sh] by simp
qed

text \<open>
  Claim C6. On two images whose shapes differ \<open>mean_squared_error\<close> raises
  \<^verbatim>\<open>ValueError\<close>: it returns no value computed over mismatched data.
\<close>

theorem mean_squared_error_shape_mismatch:
  "shape A \<noteq> shape B \<Longrightarrow> mean_squared_error A B = Inl ValueError"
  by (simp add: mean_squared_error_def)

theorem mean_squared_error_shape_mismatch_witness:
  "shape \<lparr>rows = 100, cols = 100, pixels = replicate 10000 1\<rparr>
     \<noteq> shape \<lparr>rows = 200, cols = 200, pixels = replicate 40000 1\<rparr>
   \<and> mean_squared_error \<lparr>rows = 100, cols = 100, pixels = replicate 10000 1\<rparr>
        \<lparr>rows = 200, cols = 200, pixels = replicate 40000 1\<rparr> = Inl ValueError"
proof -
  have ne: "shape \<lparr>rows = 100, cols = 100, pixels = replicate 10000 1\<rparr>
     \<noteq> shape \<lparr>rows = 200, cols = 200, pixels = replicate 40000 1\<rparr>"
    by (simp add: shape_def)
  show ?thesis
    using ne mean_squared_error_shape_mismatch [OF ne] by simp
qed

section \<open>The comparison loop and the report\<close>

lemma compare_frame_ssim:
  "result_ssim_list (compare_frame env d a s st (i, p)) =
     (if pair_ok env p then result_ssim_list st @ [ssim_or_zero env p] else result_ssim_list st)"
  by (cases p)
    (auto simp: compare_frame_def pair_ok_def ssim_or_zero_def Let_def
      dest: mean_squared_error_raises split: option.splits sum.splits)

lemma compare_fold_ssim:
  "result_ssim_list (foldl (compare_frame env d a s) st items) =
     result_ssim_list st @ map (ssim_or_zero env) (filter (pair_ok env) (map snd items))"
proof (induction items arbitrary: st)
  case Nil
  show ?case by simp
next
  case (Cons it items)
  obtain i p where it: "it = (i, p)" by (cases it)
  show ?case
    by (simp add: Cons.IH it compare_frame_ssim)
qed

text \<open>The SSIM list after the loop: one value per compared pair, in index order.\<close>

lemma compare_loop_ssim:
  "length orig = length test \<Longrightarrow>
   result_ssim_list (compare_loop env d a s orig test) =
     map (ssim_or_zero env) (filter (pair_ok env) (zip orig test))"
  by (simp add: compare_loop_def compare_fold_ssim empty_state_def)

lemma compared_pairs_card:
  assumes "length orig = length test"
  shows "length (filter (pair_ok env) (zip orig test)) =
           card {i. i < length orig \<and> pair_ok env (orig ! i, test ! i)}"
proof -
  have "{i. i < length (zip orig test) \<and> pair_ok env (zip orig test ! i)} =
          {i. i < length orig \<and> pair_ok env (orig ! i, test ! i)}"
    using assms by auto
  then show ?thesis
    by (simp add: length_filter_conv_card)
qed

lemma write_to_xml_file_ok:
  assumes "write_to_xml_file env rf ctl sf ef pl en no nt sp sn ca = Inr (file, doc)"
  shows "\<exists>first. py_int sf = Some first
           \<and> frames doc = map (\<lambda>x. (int x + first, (ctl ! 1) ! x)) [0 ..< length (ctl ! 1)]"
    and "startFrame doc = sf" and "endFrame doc = ef"
    and "minVal doc = py_min (ctl ! 1)" and "maxVal doc = py_max (ctl ! 1)"
    and "ctl ! 1 \<noteq> []"
  using assms
  by (auto simp: write_to_xml_file_def Let_def split: if_splits option.splits)

text \<open>What is known of a run that wrote its report.\<close>

lemma render_compare_report:
  assumes "render_compare_do_it env folder orig test po pt no nt = Inr out"
    and "report_file out = Some (file, doc)"
  obtains start d a where
    "orig \<noteq> []" "length orig = length test"
    "py_int (hd (split_char CHR ''.'' (basename (orig ! 0)))) = Some start"
    "loop_state out = compare_loop env d a start orig test"
    "result_ssim_list (loop_state out) \<noteq> []"
    "frames doc = map (\<lambda>x. (int x + start, result_ssim_list (loop_state out) ! x))
                    [0 ..< length (result_ssim_list (loop_state out))]"
    "startFrame doc = zfill 4 (py_str start)"
    "endFrame doc = zfill 4 (py_str (int (length orig) + start - 1))"
    "minVal doc = py_min (result_ssim_list (loop_state out))"
    "maxVal doc = py_max (result_ssim_list (loop_state out))"
proof -
  from assms(1) obtain start where start: "orig \<noteq> []" "length orig = length test"
      "py_int (hd (split_char CHR ''.'' (basename (orig ! 0)))) = Some start"
    using assms(2)
    by (auto simp: render_compare_do_it_def Let_def split: if_splits option.splits)
  define rf where "rf = replace_backslash (os_path_join folder RESULTS_FOLDER)"
  define d where "d = replace_backslash (os_path_join rf DIFF_IMAGES_FOLDER)"
  define a where "a = replace_backslash (os_path_join rf ALPHA_IMAGES_FOLDER)"
  define st where "st = compare_loop env d a start orig test"
  obtain en sp sn ca where meta: "extract_metadata_from_path rf = (en, sp, sn, ca)"
    by (cases "extract_metadata_from_path rf") auto
  have w: "write_to_xml_file env rf [result_mse_list st, result_ssim_list st]
             (zfill 4 (py_str start)) (zfill 4 (py_str (int (length orig) + start - 1)))
             [po, pt, rf, d, a] en no nt (Some sp) (Some sn) (Some ca) = Inr (file, doc)"
    and out: "loop_state out = st" and ne: "result_ssim_list st \<noteq> []"
    using assms start meta
    by (auto simp: render_compare_do_it_def Let_def rf_def [symmetric] d_def [symmetric]
        a_def [symmetric] st_def [symmetric] split: if_splits sum.splits)
  note facts = write_to_xml_file_ok [OF w]
  show thesis
  proof (rule that [of start d a])
    show "orig \<noteq> []" "length orig = length test"
      "py_int (hd (split_char CHR ''.'' (basename (orig ! 0)))) = Some start"
      by (rule start)+
    show "loop_state out = compare_loop env d a start orig test"
      by (simp add: out st_def)
    show "result_ssim_list (loop_state out) \<noteq> []"
      by (simp add: out ne)
    show "frames doc = map (\<lambda>x. (int x + start, result_ssim_list (loop_state out) ! x))
                    [0 ..< length (result_ssim_list (loop_state out))]"
      using facts(1) by (simp add: out py_int_zfill_py_str)
    show "startFrame doc = zfill 4 (py_str start)"
      "endFrame doc = zfill 4 (py_str (int (length orig) + start - 1))"
      "minVal doc = py_min (result_ssim_list (loop_state out))"
      "maxVal doc = py_max (result_ssim_list (loop_state out))"
      using facts by (simp_all add: out)
  qed
qed

text \<open>The two example runs, computed.\<close>

lemma example_run:
  "render_compare_do_it example_env ''/r'' example_orig example_test ''/r/v1'' ''/r/v2'' ''v1'' ''v2''
     = Inr \<lparr> report_file = Some (''/r/results/compareResult.xml'', example_report),
             loop_state = \<lparr> result_mse_list = [Num 0], result_ssim_list = [Num 0],
                            failed_comparisons = 2 \<rparr> \<rparr>"
  by code_simp

lemma unreadable_run:
  "render_compare_do_it unreadable_env ''/r'' example_orig example_test ''/r/v1'' ''/r/v2'' ''v1'' ''v2''
     = Inr \<lparr> report_file = None,
             loop_state = \<lparr> result_mse_list = [], result_ssim_list = [],
                            failed_comparisons = 3 \<rparr> \<rparr>"
  by code_simp

text \<open>
  Claim C4. In every written report the number of frame entries is the number of index
  positions whose pair of images both loaded and had the same dimensions, and the frame
  indices are \<open>start, start + 1, ...\<close> where \<open>start\<close> is the integer read from the file
  name of the first original image; no later file name is read.
\<close>

theorem report_frames_count_and_indices:
  assumes "render_compare_do_it env folder orig test po pt no nt = Inr out"
    and "report_file out = Some (file, doc)"
  shows "length (frames doc) = card {i. i < length orig \<and> pair_ok env (orig ! i, test ! i)}
       \<and> (\<exists>start. py_int (hd (split_char CHR ''.'' (basename (orig ! 0)))) = Some start
             \<and> map fst (frames doc) = map (\<lambda>k. start + int k) [0 ..< length (frames doc)])"
proof -
  from assms obtain start d a where
    len: "length orig = length test"
    and start: "py_int (hd (split_char CHR ''.'' (basename (orig ! 0)))) = Some start"
    and st: "loop_state out = compare_loop env d a start orig test"
    and fr: "frames doc = map (\<lambda>x. (int x + start, result_ssim_list (loop_state out) ! x))
                    [0 ..< length (result_ssim_list (loop_state out))]"
    by (rule render_compare_report)
  have n: "length (frames doc) = length (filter (pair_ok env) (zip orig test))"
    by (simp add: fr st compare_loop_ssim [OF len])
  have idx: "map fst (frames doc) = map (\<lambda>k. start + int k) [0 ..< length (frames doc)]"
    by (simp add: fr add.commute)
  show ?thesis
    using n idx start compared_pairs_card [OF len] by auto
qed

theorem report_frames_count_and_indices_witness:
  "render_compare_do_it example_env ''/r'' example_orig example_test ''/r/v1'' ''/r/v2'' ''v1'' ''v2''
     = Inr \<lparr> report_file = Some (''/r/results/compareResult.xml'', example_report),
             loop_state = \<lparr> result_mse_list = [Num 0], result_ssim_list = [Num 0],
                            failed_comparisons = 2 \<rparr> \<rparr>
   \<and> length (frames example_report)
       = card {i. i < length example_orig \<and> pair_ok example_env (example_orig ! i, example_test ! i)}
   \<and> length (frames example_report) = 1
   \<and> py_int (hd (split_char CHR ''.'' (basename (example_orig ! 0)))) = Some 5
   \<and> map fst (frames example_report) = [5]"
proof -
  have name: "py_int (hd (split_char CHR ''.'' (basename (example_orig ! 0)))) = Some 5"
    by code_simp
  have fr: "frames example_report = [(5, Num 0)]"
    by (simp add: example_report_def)
  show ?thesis
    using report_frames_count_and_indices [OF example_run, of "''/r/results/compareResult.xml''" example_report]
      example_run name fr
    by simp
qed

text \<open>
  Claim C9. The end frame of a written report is the start frame plus the number of input
  pairs minus one, whatever was skipped; so as soon as one pair is skipped (an image did
  not load or the dimensions differ), the last frame index of the report, which is the
  start frame plus the number of entries minus one, lies strictly below the end frame.
\<close>

theorem report_end_frame_counts_every_pair:
  assumes "render_compare_do_it env folder orig test po pt no nt = Inr out"
    and "report_file out = Some (file, doc)"
  shows "\<exists>start. py_int (hd (split_char CHR ''.'' (basename (orig ! 0)))) = Some start
           \<and> py_int (startFrame doc) = Some start
           \<and> py_int (endFrame doc) = Some (start + int (length orig) - 1)
           \<and> fst (last (frames doc)) = start + int (length (frames doc)) - 1
           \<and> ((\<exists>i < length orig. \<not> pair_ok env (orig ! i, test ! i))
                \<longrightarrow> fst (last (frames doc)) < start + int (length orig) - 1)"
proof -
  from assms obtain start d a where
    len: "length orig = length test"
    and start: "py_int (hd (split_char CHR ''.'' (basename (orig ! 0)))) = Some start"
    and st: "loop_state out = compare_loop env d a start orig test"
    and ne: "result_ssim_list (loop_state out) \<noteq> []"
    and fr: "frames doc = map (\<lambda>x. (int x + start, result_ssim_list (loop_state out) ! x))
                    [0 ..< length (result_ssim_list (loop_state out))]"
    and sf: "startFrame doc = zfill 4 (py_str start)"
    and ef: "endFrame doc = zfill 4 (py_str (int (length orig) + start - 1))"
    by (rule render_compare_report)
  define n where "n = length (result_ssim_list (loop_state out))"
  have n: "0 < n" "length (frames doc) = n"
    using ne by (simp_all add: n_def fr)
  have n_filter: "n = length (filter (pair_ok env) (zip orig test))"
    by (simp add: n_def st compare_loop_ssim [OF len])
  have "[0 ..< n] \<noteq> []" "last [0 ..< n] = n - 1"
    using n(1) by simp_all
  then have "fst (last (frames doc)) = int (n - 1) + start"
    unfolding fr n_def [symmetric] by (simp add: last_map)
  then have last: "fst (last (frames doc)) = start + int (length (frames doc)) - 1"
    using n by (simp add: of_nat_diff)
  have skipped: "fst (last (frames doc)) < start + int (length orig) - 1"
    if "\<exists>i < length orig. \<not> pair_ok env (orig ! i, test ! i)"
  proof -
    from that obtain i where i: "i < length orig" "\<not> pair_ok env (orig ! i, test ! i)"
      by blast
    have "i < length (zip orig test)"
      using i(1) len by simp
    then have "zip orig test ! i \<in> set (zip orig test)"
      by (rule nth_mem)
    moreover have "\<not> pair_ok env (zip orig test ! i)"
      using i len by simp
    ultimately have "length (filter (pair_ok env) (zip orig test)) < length (zip orig test)"
      by (rule length_filter_less)
    then have "n < length orig"
      using len by (simp add: n_filter)
    then show ?thesis
      using last n by simp
  qed
  have "py_int (startFrame doc) = Some start"
    "py_int (endFrame doc) = Some (start + int (length orig) - 1)"
    by (simp_all add: sf ef py_int_zfill_py_str add.commute)
  then show ?thesis
    using start last skipped by blast
qed

theorem report_end_frame_counts_every_pair_witness:
  "render_compare_do_it example_env ''/r'' example_orig example_test ''/r/v1'' ''/r/v2'' ''v1'' ''v2''
     = Inr \<lparr> report_file = Some (''/r/results/compareResult.xml'', example_report),
             loop_state = \<lparr> result_mse_list = [Num 0], result_ssim_list = [Num 0],
                            failed_comparisons = 2 \<rparr> \<rparr>
   \<and> 1 < length example_orig
   \<and> \<not> pair_ok example_env (example_orig ! 1, example_test ! 1)
   \<and> py_int (startFrame example_report) = Some 5
   \<and> py_int (endFrame example_report) = Some 7
   \<and> fst (last (frames example_report)) = 5"
proof -
  have name: "py_int (hd (split_char CHR ''.'' (basename (example_orig ! 0)))) = Some 5"
    by code_simp
  have i: "1 < length example_orig"
    by (simp add: example_orig_def)
  have bad: "\<not> pair_ok example_env (example_orig ! 1, example_test ! 1)"
    by (simp add: pair_ok_def example_env_def example_orig_def example_test_def cshape_def)
  have fr: "fst (last (frames example_report)) = 5"
    by (simp add: example_report_def)
  have len: "int (length example_orig) = 3"
    by (simp add: example_orig_def)
  show ?thesis
    using report_end_frame_counts_every_pair
        [OF example_run, of "''/r/results/compareResult.xml''" example_report]
      example_run name i bad fr len
    by auto
qed

text \<open>
  The start and end frame are written as zero-filled decimal strings and read back with
  \<^verbatim>\<open>int()\<close>; nothing is lost on the way, for negative numbers and for numbers of more
  than four digits too.
\<close>

theorem zero_filled_frame_number_reads_back:
  "py_int (zfill 4 (py_str n)) = Some n"
  by (rule py_int_zfill_py_str)

subsection \<open>A metric that raises\<close>

lemma py_min_fold_zero:
  assumes "\<forall>x \<in> set xs. \<exists>r \<ge> 0. x = Num r" "\<exists>r \<ge> 0. m = Num r"
  shows "foldl (\<lambda>m x. if np_less x m then x else m) m xs = Num 0
           \<longleftrightarrow> m = Num 0 \<or> Num 0 \<in> set xs"
  using assms
proof (induction xs arbitrary: m)
  case Nil
  show ?case by simp
next
  case (Cons x xs)
  from Cons.prems obtain r q where x: "x = Num r" "0 \<le> r" and m: "m = Num q" "0 \<le> q"
    by auto
  let ?m' = "if np_less x m then x else m"
  have m': "\<exists>r \<ge> 0. ?m' = Num r"
    using x m by auto
  have step: "?m' = Num 0 \<longleftrightarrow> m = Num 0 \<or> x = Num 0"
    using x m by auto
  have "foldl (\<lambda>m x. if np_less x m then x else m) ?m' xs = Num 0
          \<longleftrightarrow> ?m' = Num 0 \<or> Num 0 \<in> set xs"
    using Cons.prems(1) m' by (intro Cons.IH) auto
  then show ?case
    using step by auto
qed

lemma py_min_zero:
  assumes "xs \<noteq> []" "\<forall>x \<in> set xs. \<exists>r \<ge> 0. x = Num r" "Num 0 \<in> set xs"
  shows "py_min xs = Num 0"
proof -
  obtain y ys where xs: "xs = y # ys"
    using assms(1) by (cases xs) auto
  have "foldl (\<lambda>m x. if np_less x m then x else m) y ys = Num 0 \<longleftrightarrow> y = Num 0 \<or> Num 0 \<in> set ys"
    using assms(2) xs by (intro py_min_fold_zero) auto
  then show ?thesis
    using assms(3) xs by (auto simp: py_min_def)
qed

text \<open>
  Claim C10. Take a pair that loads with matching dimensions. If the SSIM call raises,
  \<open>0.0\<close> is appended as the SSIM value of that frame; if \<open>mean_squared_error\<close> raises,
  \<open>0.0\<close> is appended as its MSE value; either way both lists grow by one entry, so the
  frame is not skipped, and the failure counter moves only if writing the two images
  fails afterwards. In a written report whose other SSIM values are not negative, such
  a frame makes \<open>minVal\<close> equal to \<open>0.0\<close>.
\<close>

theorem metric_failure_is_recorded_as_zero:
  fixes env :: cv_env and d a :: string and start :: int and st :: compare_state
    and orig test :: "string list" and i :: nat
  assumes "i < length orig" "length orig = length test"
    and "imread env (orig ! i) = Some source_frame"
    and "imread env (test ! i) = Some tested_frame"
    and "cshape source_frame = cshape tested_frame"
  defines "st' \<equiv> compare_frame env d a start st (i, orig ! i, test ! i)"
  shows "length (result_ssim_list st') = length (result_ssim_list st) + 1
       \<and> length (result_mse_list st') = length (result_mse_list st) + 1
       \<and> failed_comparisons st' \<le> failed_comparisons st + 1
       \<and> ((\<exists>e. ssim env (cvtColor env source_frame) (cvtColor env tested_frame) = Inl e)
            \<longrightarrow> result_ssim_list st' = result_ssim_list st @ [Num 0])
       \<and> ((\<exists>e. mean_squared_error (cvtColor env source_frame) (cvtColor env tested_frame) = Inl e)
            \<longrightarrow> result_mse_list st' = result_mse_list st @ [Num 0])
       \<and> (write_artifacts env
              (os_path_join d (zfill 4 (py_str (start + int i)) @ ''.jpg''))
              (os_path_join a (zfill 4 (py_str (start + int i)) @ ''.png''))
              (cvtColor env source_frame) (cvtColor env tested_frame)
            \<longrightarrow> failed_comparisons st' = failed_comparisons st)
       \<and> ((\<exists>e. ssim env (cvtColor env source_frame) (cvtColor env tested_frame) = Inl e)
            \<and> render_compare_do_it env folder orig test po pt no nt = Inr out
            \<and> report_file out = Some (file, doc)
            \<and> (\<forall>j < length orig. pair_ok env (orig ! j, test ! j)
                  \<longrightarrow> (\<exists>r \<ge> 0. ssim_or_zero env (orig ! j, test ! j) = Num r))
            \<longrightarrow> minVal doc = Num 0)"
proof -
  have frame: "length (result_ssim_list st') = length (result_ssim_list st) + 1"
    "length (result_mse_list st') = length (result_mse_list st) + 1"
    "failed_comparisons st' \<le> failed_comparisons st + 1"
    "(\<exists>e. ssim env (cvtColor env source_frame) (cvtColor env tested_frame) = Inl e)
       \<longrightarrow> result_ssim_list st' = result_ssim_list st @ [Num 0]"
    "(\<exists>e. mean_squared_error (cvtColor env source_frame) (cvtColor env tested_frame) = Inl e)
       \<longrightarrow> result_mse_list st' = result_mse_list st @ [Num 0]"
    "write_artifacts env
        (os_path_join d (zfill 4 (py_str (start + int i)) @ ''.jpg''))
        (os_path_join a (zfill 4 (py_str (start + int i)) @ ''.png''))
        (cvtColor env source_frame) (cvtColor env tested_frame)
       \<longrightarrow> failed_comparisons st' = failed_comparisons st"
    using assms(3-5)
    by (auto simp: st'_def compare_frame_def Let_def
        dest: mean_squared_error_raises split: sum.splits)
  have report: "minVal doc = Num 0"
    if raises: "\<exists>e. ssim env (cvtColor env source_frame) (cvtColor env tested_frame) = Inl e"
      and run: "render_compare_do_it env folder orig test po pt no nt = Inr out"
      and written: "report_file out = Some (file, doc)"
      and nonneg: "\<forall>j < length orig. pair_ok env (orig ! j, test ! j)
                     \<longrightarrow> (\<exists>r \<ge> 0. ssim_or_zero env (orig ! j, test ! j) = Num r)"
  proof -
    from run written obtain s' d' a' where
      st: "loop_state out = compare_loop env d' a' s' orig test"
      and ne: "result_ssim_list (loop_state out) \<noteq> []"
      and mv: "minVal doc = py_min (result_ssim_list (loop_state out))"
      by (rule render_compare_report)
    let ?vals = "map (ssim_or_zero env) (filter (pair_ok env) (zip orig test))"
    have vals: "result_ssim_list (loop_state out) = ?vals"
      by (simp add: st compare_loop_ssim [OF assms(2)])
    have ok: "pair_ok env (orig ! i, test ! i)"
      using assms(3-5) by (simp add: pair_ok_def)
    have zero: "ssim_or_zero env (orig ! i, test ! i) = Num 0"
      using raises assms(3,4) by (auto simp: ssim_or_zero_def)
    have "(orig ! i, test ! i) \<in> set (zip orig test)"
      using assms(1,2) by (metis length_zip min.idem nth_mem nth_zip)
    then have "Num 0 \<in> set ?vals"
      using ok zero by force
    moreover have "\<forall>x \<in> set ?vals. \<exists>r \<ge> 0. x = Num r"
    proof
      fix x assume "x \<in> set ?vals"
      then obtain p where p: "p \<in> set (zip orig test)" "pair_ok env p" "x = ssim_or_zero env p"
        by auto
      then obtain j where "j < length orig" "p = (orig ! j, test ! j)"
        using assms(2) by (auto simp: in_set_conv_nth)
      then show "\<exists>r \<ge> 0. x = Num r"
        using nonneg p by auto
    qed
    ultimately show ?thesis
      using ne by (simp add: mv vals py_min_zero)
  qed
  show ?thesis
    using frame report by blast
qed

theorem metric_failure_is_recorded_as_zero_witness:
  "0 < length example_orig \<and> length example_orig = length example_test
   \<and> imread example_env (example_orig ! 0) = Some \<lparr> crows = 1, ccols = 1, bgr = [(7, 7, 7)] \<rparr>
   \<and> imread example_env (example_test ! 0) = Some \<lparr> crows = 1, ccols = 1, bgr = [(7, 7, 7)] \<rparr>
   \<and> ssim example_env (cvtColor example_env \<lparr> crows = 1, ccols = 1, bgr = [(7, 7, 7)] \<rparr>)
        (cvtColor example_env \<lparr> crows = 1, ccols = 1, bgr = [(7, 7, 7)] \<rparr>) = Inl LibraryError
   \<and> result_ssim_list (compare_frame example_env ''/d'' ''/a'' 5 empty_state
        (0, example_orig ! 0, example_test ! 0)) = [Num 0]
   \<and> failed_comparisons (compare_frame example_env ''/d'' ''/a'' 5 empty_state
        (0, example_orig ! 0, example_test ! 0)) = 0
   \<and> render_compare_do_it example_env ''/r'' example_orig example_test ''/r/v1'' ''/r/v2'' ''v1'' ''v2''
     = Inr \<lparr> report_file = Some (''/r/results/compareResult.xml'', example_report),
             loop_state = \<lparr> result_mse_list = [Num 0], result_ssim_list = [Num 0],
                            failed_comparisons = 2 \<rparr> \<rparr>
   \<and> minVal example_report = Num 0"
proof -
  let ?im = "\<lparr> crows = 1, ccols = 1, bgr = [(7, 7, 7)] \<rparr>"
  have i: "0 < length example_orig" and len: "length example_orig = length example_test"
    by (simp_all add: example_orig_def example_test_def)
  have a: "imread example_env (example_orig ! 0) = Some ?im"
    and b: "imread example_env (example_test ! 0) = Some ?im"
    by (simp_all add: example_env_def example_orig_def example_test_def)
  have raises: "ssim example_env (cvtColor example_env ?im) (cvtColor example_env ?im) = Inl LibraryError"
    by (simp add: example_env_def)
  have art: "write_artifacts example_env p q x y" for p q x y
    by (simp add: example_env_def)
  have nonneg: "\<forall>j < length example_orig. pair_ok example_env (example_orig ! j, example_test ! j)
      \<longrightarrow> (\<exists>r \<ge> 0. ssim_or_zero example_env (example_orig ! j, example_test ! j) = Num r)"
    by (simp add: ssim_or_zero_def example_env_def)
  let ?out = "\<lparr> report_file = Some (''/r/results/compareResult.xml'', example_report),
                 loop_state = \<lparr> result_mse_list = [Num 0], result_ssim_list = [Num 0],
                                failed_comparisons = 2 \<rparr> \<rparr>"
  note inst = metric_failure_is_recorded_as_zero [OF i len a b refl,
      of "''/d''" "''/a''" 5 empty_state "''/r''" "''/r/v1''" "''/r/v2''" "''v1''" "''v2''" ?out
         "''/r/results/compareResult.xml''" example_report]
  show ?thesis
    using inst example_run i len a b raises art nonneg
    by (simp add: empty_state_def)
qed

subsection \<open>An empty metric list\<close>

lemma render_compare_returns:
  "\<exists>out. render_compare_do_it env folder orig test po pt no nt = Inr out"
  by (auto simp: render_compare_do_it_def Let_def split: option.splits sum.splits prod.splits)

text \<open>
  Claim C7, as the code has it. With an empty SSIM list \<open>write_to_xml_file\<close> raises
  \<^verbatim>\<open>ValueError\<close> and writes nothing, and a comparison run whose SSIM list ends empty
  writes no report. The run itself raises nothing: it returns normally to its caller.
\<close>

theorem empty_ssim_list_writes_no_report:
  "write_to_xml_file env rf [mse_list, []] sf ef pl en no nt sp sn ca = Inl ValueError
   \<and> (\<exists>out. render_compare_do_it env folder orig test po pt vo vt = Inr out
         \<and> (result_ssim_list (loop_state out) = [] \<longrightarrow> report_file out = None))"
proof -
  have 1: "write_to_xml_file env rf [mse_list, []] sf ef pl en no nt sp sn ca = Inl ValueError"
    by (simp add: write_to_xml_file_def)
  obtain out where out: "render_compare_do_it env folder orig test po pt vo vt = Inr out"
    using render_compare_returns by blast
  have "report_file out = None" if "result_ssim_list (loop_state out) = []"
  proof (cases "report_file out")
    case None
    then show ?thesis .
  next
    case (Some written)
    obtain name doc where "report_file out = Some (name, doc)"
      using Some by (cases written) auto
    with out have "result_ssim_list (loop_state out) \<noteq> []"
      by (rule render_compare_report)
    with that show ?thesis by simp
  qed
  with 1 out show ?thesis by blast
qed

theorem empty_ssim_list_writes_no_report_witness:
  "write_to_xml_file unreadable_env ''/r/results'' [[], []] ''0005'' ''0007''
       [''/r/v1'', ''/r/v2'', ''/r/results'', ''/r/results/diff_images'', ''/r/results/alpha_images'']
       [] ''v1'' ''v2'' None None None = Inl ValueError
   \<and> render_compare_do_it unreadable_env ''/r'' example_orig example_test ''/r/v1'' ''/r/v2'' ''v1'' ''v2''
       = Inr \<lparr> report_file = None,
               loop_state = \<lparr> result_mse_list = [], result_ssim_list = [],
                              failed_comparisons = 3 \<rparr> \<rparr>"
  using empty_ssim_list_writes_no_report [of unreadable_env "''/r/results''" "[]" "''0005''" "''0007''"
      "[''/r/v1'', ''/r/v2'', ''/r/results'', ''/r/results/diff_images'', ''/r/results/alpha_images'']"
      "[]" "''v1''" "''v2''" None None None "''/r''" example_orig example_test
      "''/r/v1''" "''/r/v2''" "''v1''" "''v2''"]
    unreadable_run
  by simp

text \<open>
  The claim C7 as stated fails: with every image unreadable the SSIM list is empty, yet
  the run returns normally, and its caller \<^verbatim>\<open>_compare_single_folder\<close> answers
  \<^verbatim>\<open>True\<close>.
\<close>

theorem empty_ssim_list_error_not_surfaced:
  "render_compare_do_it unreadable_env ''/r/testSets_results/E/S/F1/v1_VS_v2''
       example_orig example_test ''/r/v1'' ''/r/v2'' ''v1'' ''v2''
     = Inr \<lparr> report_file = None,
             loop_state = \<lparr> result_mse_list = [], result_ssim_list = [],
                            failed_comparisons = 3 \<rparr> \<rparr>
   \<and> compare_single_folder unreadable_env example_task
     = (True, Some \<lparr> report_file = None,
                     loop_state = \<lparr> result_mse_list = [], result_ssim_list = [],
                                    failed_comparisons = 3 \<rparr> \<rparr>)"
  by code_simp

section \<open>The render pool: counting completed tasks\<close>

lemma length_filter_remove1:
  "t \<in> set xs \<Longrightarrow> length (filter P (remove1 t xs)) + (if P t then 1 else 0) = length (filter P xs)"
  by (induction xs) auto

lemma length_remove1_mem: "t \<in> set xs \<Longrightarrow> length (remove1 t xs) + 1 = length xs"
  by (induction xs) auto

lemma pool_step_counts:
  assumes "pool_step W env s s'"
  shows "successful_renders s' + failed_renders s' + uncounted s'
           = successful_renders s + failed_renders s + uncounted s"
    and "successful_renders s' + uncounted_successes env s'
           = successful_renders s + uncounted_successes env s"
    and "render_count s' + length (queued s') = render_count s + length (queued s)"
  using assms
proof (induction rule: pool_step.induct)
  case (start s t rest)
  {
    case 1 then show ?case using start by (simp add: uncounted_def)
  next
    case 2 then show ?case using start by (simp add: uncounted_successes_def)
  next
    case 3 then show ?case using start by simp
  }
next
  case (finish t s)
  {
    case 1 then show ?case
      using length_remove1_mem [OF finish] by (simp add: uncounted_def)
  next
    case 2 then show ?case
      using length_filter_remove1 [OF finish, of "render_single_task env"]
      by (auto simp: uncounted_successes_def split: if_splits)
  next
    case 3 then show ?case by simp
  }
next
  case (collect r s)
  {
    case 1 then show ?case
      using length_remove1_mem [OF collect]
      by (cases r) (auto simp: uncounted_def count_result_def)
  next
    case 2 then show ?case
      using length_filter_remove1 [OF collect, of "\<lambda>r. r = Returned True"]
      by (cases r) (auto simp: uncounted_successes_def count_result_def split: if_splits)
  next
    case 3 then show ?case
      by (cases r) (auto simp: count_result_def)
  }
qed


lemma pool_run_counts:
  assumes "rtranclp (pool_step W env) s s'"
  shows "successful_renders s' + failed_renders s' + uncounted s'
           = successful_renders s + failed_renders s + uncounted s"
    and "successful_renders s' + uncounted_successes env s'
           = successful_renders s + uncounted_successes env s"
    and "render_count s' + length (queued s') = render_count s + length (queued s)"
  using assms
  by (induction rule: rtranclp_induct) (simp_all add: pool_step_counts)

lemma run_in_order_reaches:
  assumes "0 < W" "queued s = ts" "running s = []" "completed s = []"
  shows "rtranclp (pool_step W env) s (run_in_order env ts s) \<and> drained (run_in_order env ts s)"
  using assms
proof (induction ts arbitrary: s)
  case Nil
  then show ?case by (simp add: drained_def)
next
  case (Cons t ts)
  let ?r = "Returned (render_single_task env t)"
  let ?s1 = "s\<lparr>queued := ts, running := running s @ [t], render_count := render_count s + 1\<rparr>"
  let ?s2 = "?s1\<lparr>running := remove1 t (running ?s1), completed := completed ?s1 @ [?r]\<rparr>"
  let ?s3 = "count_result ?r (?s2\<lparr>completed := remove1 ?r (completed ?s2)\<rparr>)"
  have shape: "?s3 = count_result ?r (s\<lparr>queued := ts, render_count := render_count s + 1\<rparr>)"
    using Cons.prems(3,4) by (simp add: count_result_def)
  have q: "queued ?s3 = ts" "running ?s3 = []" "completed ?s3 = []"
    using Cons.prems(3,4) by (simp_all add: count_result_def)
  have "pool_step W env s ?s1"
    using Cons.prems(1,2,3) by (intro pool_step.start) simp_all
  moreover have "pool_step W env ?s1 ?s2"
    by (intro pool_step.finish) simp
  moreover have "pool_step W env ?s2 ?s3"
    by (intro pool_step.collect) simp
  ultimately have first: "rtranclp (pool_step W env) s ?s3"
    by (meson rtranclp.rtrancl_into_rtrancl rtranclp.rtrancl_refl)
  have rest: "rtranclp (pool_step W env) ?s3 (run_in_order env ts ?s3)
      \<and> drained (run_in_order env ts ?s3)"
    using Cons.prems(1) q by (intro Cons.IH)
  have unfold: "run_in_order env (t # ts) s = run_in_order env ts ?s3"
    by (simp only: run_in_order.simps shape)
  from first rest have "rtranclp (pool_step W env) s (run_in_order env ts ?s3)"
    by (meson rtranclp_trans)
  with rest show ?case
    by (simp only: unfold simp_thms)
qed

text \<open>
  Claim C8. For any number of render tasks and any worker count that the executor accepts,
  the pool can drain, and in every drained state, whatever the order in which workers
  started and finished and futures were collected, the successful and failed counters
  add up to the number of tasks: every task was counted once. The successes are exactly
  the tasks whose render answers true, and the progress counter has counted every task.
\<close>

theorem pool_counters_add_up:
  "(0 < max_workers \<longrightarrow> (\<exists>s. pool_reaches max_workers env render_tasks s \<and> drained s))
   \<and> (\<forall>s. pool_reaches max_workers env render_tasks s \<and> drained s \<longrightarrow>
          successful_renders s + failed_renders s = length render_tasks
          \<and> successful_renders s = length (filter (render_single_task env) render_tasks)
          \<and> render_count s = length render_tasks)"
proof (intro conjI impI allI)
  assume "0 < max_workers"
  then have "rtranclp (pool_step max_workers env) (initial_pool render_tasks)
               (run_in_order env render_tasks (initial_pool render_tasks))
             \<and> drained (run_in_order env render_tasks (initial_pool render_tasks))"
    by (intro run_in_order_reaches) (simp_all add: initial_pool_def)
  then show "\<exists>s. pool_reaches max_workers env render_tasks s \<and> drained s"
    using \<open>0 < max_workers\<close> unfolding pool_reaches_def by blast
next
  fix s
  assume a: "pool_reaches max_workers env render_tasks s \<and> drained s"
  then have run: "rtranclp (pool_step max_workers env) (initial_pool render_tasks) s"
    by (simp add: pool_reaches_def)
  have d: "uncounted s = 0" "uncounted_successes env s = 0" "queued s = []"
    using a by (simp_all add: drained_def uncounted_def uncounted_successes_def)
  show "successful_renders s + failed_renders s = length render_tasks"
    using pool_run_counts(1) [OF run] d
    by (simp add: initial_pool_def uncounted_def)
  show "successful_renders s = length (filter (render_single_task env) render_tasks)"
    using pool_run_counts(2) [OF run] d
    by (simp add: initial_pool_def uncounted_successes_def)
  show "render_count s = length render_tasks"
    using pool_run_counts(3) [OF run] d
    by (simp add: initial_pool_def)
qed

theorem pool_counters_add_up_witness:
  "pool_reaches 1 ready_env two_tasks (run_in_order ready_env two_tasks (initial_pool two_tasks))
   \<and> drained (run_in_order ready_env two_tasks (initial_pool two_tasks))
   \<and> length two_tasks = 2
   \<and> successful_renders (run_in_order ready_env two_tasks (initial_pool two_tasks))
       + failed_renders (run_in_order ready_env two_tasks (initial_pool two_tasks)) = 2"
proof -
  have reach: "rtranclp (pool_step 1 ready_env) (initial_pool two_tasks)
                 (run_in_order ready_env two_tasks (initial_pool two_tasks))
               \<and> drained (run_in_order ready_env two_tasks (initial_pool two_tasks))"
    by (intro run_in_order_reaches) (simp_all add: initial_pool_def)
  then have r: "pool_reaches 1 ready_env two_tasks
                  (run_in_order ready_env two_tasks (initial_pool two_tasks))"
    by (simp add: pool_reaches_def)
  have n: "length two_tasks = 2"
    by (simp add: two_tasks_def make_render_tasks_def)
  show ?thesis
    using pool_counters_add_up [of 1 ready_env two_tasks] r reach n
    by auto
qed

section \<open>Discovery: frame names and placeholder folders\<close>

lemma frame_entry_accepts:
  "frame_entry fs event_path set_path frame_path \<noteq> None \<longleftrightarrow>
     fs_is_dir fs frame_path
     \<and> length (split_char CHR ''F'' (basename frame_path)) = 2
     \<and> py_int (last (split_char CHR ''F'' (basename frame_path))) \<noteq> None
     \<and> fs_exists fs (os_path_join (os_path_join (os_path_join frame_path ''Render'') ''Json'')
                        ''standAloneRender.json'')"
  by (auto simp: frame_entry_def Let_def split: option.splits)

text \<open>
  Claim C2 at a frame folder named \<open>aF42\<close>. The name is not \<open>F\<close> followed by digits, yet
  it splits on \<open>F\<close> into the two pieces \<open>a\<close> and \<open>42\<close>, the second piece is an integer,
  and the folder is catalogued next to \<open>F42\<close>; \<open>F4a\<close> is left out.
\<close>

theorem frame_named_aF42_is_catalogued:
  "get_json_files frames_tree fresh_localizer ''/base'' event_pattern ''Set'' False =
     Some (Inr (frames_tree, fresh_localizer,
       [''/base/E12_34_56_78_90_12__/Set1'', ''/base/E12_34_56_78_90_12__/Set1''],
       [''/base/E12_34_56_78_90_12__/Set1/F42'', ''/base/E12_34_56_78_90_12__/Set1/aF42''],
       [''F42'', ''aF42''],
       [''/base/E12_34_56_78_90_12__/Set1/F42/Render/Json'',
        ''/base/E12_34_56_78_90_12__/Set1/aF42/Render/Json''],
       [''/base/E12_34_56_78_90_12__/Set1/F42/Render/Json/standAloneRender.json'',
        ''/base/E12_34_56_78_90_12__/Set1/aF42/Render/Json/standAloneRender.json''],
       [''/base/E12_34_56_78_90_12__'', ''/base/E12_34_56_78_90_12__'']))"
  by code_simp

subsection \<open>The loop that looks for an unused placeholder\<close>

lemma first_free_index_skips:
  assumes "\<forall>k. i \<le> k \<and> k < j \<longrightarrow> taken k" "\<not> taken j" "i \<le> j"
  shows "first_free_index taken i = Some j"
  using assms
proof (induction "nat (j - i)" arbitrary: i)
  case 0
  then have "i = j" by simp
  then show ?case
    using "0.prems"(2) by (subst first_free_index.simps) simp
next
  case (Suc n)
  then have less: "i < j" by linarith
  then have "taken i"
    using Suc.prems(1) by simp
  moreover have "first_free_index taken (i + 1) = Some j"
    using Suc.hyps(2) Suc.prems less by (intro Suc.hyps(1)) auto
  ultimately show ?case
    by (subst first_free_index.simps) simp
qed

text \<open>
  Claim C3, as the code has it. \<open>create_extra_folder\<close> never reuses a placeholder that
  is already there: from its counter on it passes every index whose placeholder subpath
  exists and makes the new folders at the first index whose subpath does not exist,
  leaving the counter there. This holds for the sport-level placeholder (depth 3) and
  for the stadium-level one (depth 2).
\<close>

theorem create_extra_folder_uses_first_unused_index:
  assumes "i \<le> j"
  shows "(sport_folder_index self = i
          \<and> (\<forall>k. i \<le> k \<and> k < j \<longrightarrow> fs_exists fs (sport_placeholder (dirname parent_path) k))
          \<and> \<not> fs_exists fs (sport_placeholder (dirname parent_path) j)
          \<longrightarrow> create_extra_folder fs self parent_path 3 =
                Some (case fs_mkdir_parents fs (sport_placeholder (dirname parent_path) j) of
                        Inl e \<Rightarrow> Inl e
                      | Inr fs' \<Rightarrow>
                          Inr (fs', self\<lparr>sport_folder_index := j\<rparr>,
                               os_path_join (sport_placeholder (dirname parent_path) j)
                                 (basename parent_path))))
       \<and> (stadium_folder_index self = i
          \<and> (\<forall>k. i \<le> k \<and> k < j \<longrightarrow> fs_exists fs (stadium_placeholder (dirname parent_path) k))
          \<and> \<not> fs_exists fs (stadium_placeholder (dirname parent_path) j)
          \<longrightarrow> create_extra_folder fs self parent_path 2 =
                Some (case fs_mkdir_parents fs (stadium_placeholder (dirname parent_path) j) of
                        Inl e \<Rightarrow> Inl e
                      | Inr fs' \<Rightarrow>
                          Inr (fs', self\<lparr>stadium_folder_index := j\<rparr>,
                               os_path_join (stadium_placeholder (dirname parent_path) j)
                                 (basename parent_path))))"
proof (intro conjI impI)
  assume a: "sport_folder_index self = i
      \<and> (\<forall>k. i \<le> k \<and> k < j \<longrightarrow> fs_exists fs (sport_placeholder (dirname parent_path) k))
      \<and> \<not> fs_exists fs (sport_placeholder (dirname parent_path) j)"
  then have "first_free_index (\<lambda>i. fs_exists fs (sport_placeholder (dirname parent_path) i))
               (sport_folder_index self) = Some j"
    using assms by (intro first_free_index_skips) auto
  then show "create_extra_folder fs self parent_path 3 =
      Some (case fs_mkdir_parents fs (sport_placeholder (dirname parent_path) j) of
              Inl e \<Rightarrow> Inl e
            | Inr fs' \<Rightarrow>
                Inr (fs', self\<lparr>sport_folder_index := j\<rparr>,
                     os_path_join (sport_placeholder (dirname parent_path) j)
                       (basename parent_path)))"
    by (simp add: create_extra_folder_def Let_def split: sum.splits)
next
  assume a: "stadium_folder_index self = i
      \<and> (\<forall>k. i \<le> k \<and> k < j \<longrightarrow> fs_exists fs (stadium_placeholder (dirname parent_path) k))
      \<and> \<not> fs_exists fs (stadium_placeholder (dirname parent_path) j)"
  then have "first_free_index (\<lambda>i. fs_exists fs (stadium_placeholder (dirname parent_path) i))
               (stadium_folder_index self) = Some j"
    using assms by (intro first_free_index_skips) auto
  then show "create_extra_folder fs self parent_path 2 =
      Some (case fs_mkdir_parents fs (stadium_placeholder (dirname parent_path) j) of
              Inl e \<Rightarrow> Inl e
            | Inr fs' \<Rightarrow>
                Inr (fs', self\<lparr>stadium_folder_index := j\<rparr>,
                     os_path_join (stadium_placeholder (dirname parent_path) j)
                       (basename parent_path)))"
    by (simp add: create_extra_folder_def Let_def split: sum.splits)
qed

theorem create_extra_folder_uses_first_unused_index_witness:
  "sport_folder_index fresh_localizer = 1
   \<and> fs_exists once_localized_tree (sport_placeholder (dirname ''/base/E12_34_56_78_90_12__'') 1)
   \<and> \<not> fs_exists once_localized_tree (sport_placeholder (dirname ''/base/E12_34_56_78_90_12__'') 2)
   \<and> create_extra_folder once_localized_tree fresh_localizer ''/base/E12_34_56_78_90_12__'' 3 =
       Some (Inr (twice_localized_tree, fresh_localizer\<lparr>sport_folder_index := 2\<rparr>,
                  ''/base/sportType_2/stadiumName/categoryName/E12_34_56_78_90_12__''))"
proof -
  have idx: "sport_folder_index fresh_localizer = 1"
    by (simp add: fresh_localizer_def)
  have one: "fs_exists once_localized_tree (sport_placeholder (dirname ''/base/E12_34_56_78_90_12__'') 1)"
    by code_simp
  have two: "\<not> fs_exists once_localized_tree (sport_placeholder (dirname ''/base/E12_34_56_78_90_12__'') 2)"
    by code_simp
  have made: "fs_mkdir_parents once_localized_tree
                (sport_placeholder (dirname ''/base/E12_34_56_78_90_12__'') 2) = Inr twice_localized_tree"
    by code_simp
  have path: "os_path_join (sport_placeholder (dirname ''/base/E12_34_56_78_90_12__'') 2)
                (basename ''/base/E12_34_56_78_90_12__'')
              = ''/base/sportType_2/stadiumName/categoryName/E12_34_56_78_90_12__''"
    by code_simp
  have below: "\<forall>k. (1::int) \<le> k \<and> k < 2 \<longrightarrow>
      fs_exists once_localized_tree (sport_placeholder (dirname ''/base/E12_34_56_78_90_12__'') k)"
  proof (intro allI impI)
    fix k :: int
    assume "1 \<le> k \<and> k < 2"
    then have "k = 1" by simp
    then show "fs_exists once_localized_tree
                 (sport_placeholder (dirname ''/base/E12_34_56_78_90_12__'') k)"
      using one by simp
  qed
  have "create_extra_folder once_localized_tree fresh_localizer ''/base/E12_34_56_78_90_12__'' 3 =
          Some (Inr (twice_localized_tree, fresh_localizer\<lparr>sport_folder_index := 2\<rparr>,
                     ''/base/sportType_2/stadiumName/categoryName/E12_34_56_78_90_12__''))"
    using create_extra_folder_uses_first_unused_index
        [of 1 2 fresh_localizer once_localized_tree "''/base/E12_34_56_78_90_12__''"]
      idx below two
    by (simp add: made path)
  then show ?thesis
    using idx one two by simp
qed

text \<open>
  The claim C3 as stated fails: a second discovery with folder creation over the tree
  the first one left finds \<open>sportType_1\<close> taken, goes on to index 2 and creates a second
  placeholder tree next to the first.
\<close>

theorem second_discovery_adds_placeholder:
  "get_json_files shallow_tree fresh_localizer ''/base'' event_pattern ''Set'' True =
     Some (Inr (once_localized_tree, fresh_localizer, [], [], [], [], [], []))
   \<and> get_json_files once_localized_tree fresh_localizer ''/base'' event_pattern ''Set'' True =
     Some (Inr (twice_localized_tree, fresh_localizer\<lparr>sport_folder_index := 2\<rparr>,
                [], [], [], [], [], []))
   \<and> twice_localized_tree \<noteq> once_localized_tree
   \<and> \<not> fs_exists once_localized_tree ''/base/sportType_2/stadiumName/categoryName''
   \<and> fs_exists twice_localized_tree ''/base/sportType_2/stadiumName/categoryName''"
  by code_simp

section \<open>Discovery always returns\<close>

lemma split_char_nonempty: "split_char c s \<noteq> []"
  by (induction s) (auto split: list.splits)

lemma split_char_no_sep: "c \<notin> set s \<Longrightarrow> split_char c s = [s]"
  by (induction s) auto

lemma split_char_append:
  "split_char c (xs @ ys) =
     butlast (split_char c xs) @ [last (split_char c xs) @ hd (split_char c ys)] @ tl (split_char c ys)"
proof (induction xs)
  case Nil
  show ?case using split_char_nonempty [of c ys] by simp
next
  case (Cons x xs)
  show ?case
  proof (cases "x = c")
    case True
    then show ?thesis
      using Cons.IH split_char_nonempty [of c xs] by simp
  next
    case False
    obtain p ps where a: "split_char c xs = p # ps"
      using split_char_nonempty [of c xs] by (cases "split_char c xs") auto
    show ?thesis
      using False Cons.IH a by (cases ps) auto
  qed
qed

lemma split_char_last_sep:
  assumes "s \<noteq> []" "last s = c"
  shows "last (split_char c s) = []"
proof -
  have "s = butlast s @ [c]"
    using assms by (metis append_butlast_last_id)
  then have "split_char c s =
      butlast (split_char c (butlast s)) @ [last (split_char c (butlast s)) @ hd (split_char c [c])]
        @ tl (split_char c [c])"
    using split_char_append [of c "butlast s" "[c]"] by simp
  then show ?thesis by simp
qed

lemma path_parts_join:
  assumes "n \<noteq> []" "CHR ''/'' \<notin> set n"
  shows "path_parts (os_path_join p n) = path_parts p @ [n]"
proof -
  have hd_n: "hd n \<noteq> CHR ''/''"
    using assms by (cases n) auto
  have n: "split_char CHR ''/'' n = [n]"
    using assms(2) by (rule split_char_no_sep)
  obtain bs b where a: "split_char CHR ''/'' p = bs @ [b]"
    using split_char_nonempty [of "CHR ''/''" p] by (metis append_butlast_last_id)
  show ?thesis
  proof (cases "p = [] \<or> last p = CHR ''/''")
    case True
    then have j: "os_path_join p n = p @ n"
      using hd_n assms(1) by (simp add: os_path_join_def)
    have "last (split_char CHR ''/'' p) = []"
      using True by (cases "p = []") (simp_all add: split_char_last_sep)
    then have b: "b = []"
      by (simp add: a)
    have "split_char CHR ''/'' (p @ n) = bs @ [n]"
      by (simp add: split_char_append n a b)
    then show ?thesis
      using assms(1) unfolding path_parts_def j by (simp add: a b)
  next
    case False
    then have j: "os_path_join p n = p @ ''/'' @ n"
      using hd_n assms(1) by (simp add: os_path_join_def)
    have "split_char CHR ''/'' (''/'' @ n) = [[], n]"
      by (simp add: n)
    then have "split_char CHR ''/'' (p @ ''/'' @ n) = bs @ [b, n]"
      by (simp add: split_char_append [of _ p] a)
    then show ?thesis
      using assms(1) unfolding path_parts_def j by (simp add: a)
  qed
qed


lemma lookup_child_name:
  "lookup fs (ps @ n # rest) \<noteq> None \<Longrightarrow>
     \<exists>entries. lookup fs ps = Some (Dir entries) \<and> n \<in> fst ` set entries"
proof (induction ps arbitrary: fs)
  case Nil
  then show ?case
    by (auto split: node.splits option.splits dest: map_of_SomeD intro: rev_image_eqI)
next
  case (Cons p ps)
  then show ?case
    by (auto split: node.splits option.splits)
qed

lemma py_str_no_slash: "CHR ''/'' \<notin> set (py_str k)"
  using set_digits_of [of "nat k"] set_digits_of [of "nat (- k)"]
  by (auto simp: py_str_def digits_def)

lemma placeholder_name_ok:
  "prefix @ py_str k \<noteq> []" "CHR ''/'' \<notin> set prefix \<Longrightarrow> CHR ''/'' \<notin> set (prefix @ py_str k)"
  using digits_of_nonempty py_str_no_slash by (auto simp: py_str_def)

lemma finite_numbered_children:
  "finite {k. \<exists>rest. lookup fs (ps @ (prefix @ py_str k) # rest) \<noteq> None}"
proof (cases "\<exists>entries. lookup fs ps = Some (Dir entries)")
  case False
  then have "{k. \<exists>rest. lookup fs (ps @ (prefix @ py_str k) # rest) \<noteq> None} = {}"
    using lookup_child_name by blast
  then show ?thesis by simp
next
  case True
  then obtain entries where e: "lookup fs ps = Some (Dir entries)" by blast
  have inj: "inj (\<lambda>k. prefix @ py_str k)"
    by (auto simp: inj_on_def dest: py_str_inj)
  have "{k. \<exists>rest. lookup fs (ps @ (prefix @ py_str k) # rest) \<noteq> None}
          \<subseteq> (\<lambda>k. prefix @ py_str k) -` (fst ` set entries)"
    using lookup_child_name e by fastforce
  moreover have "finite ((\<lambda>k. prefix @ py_str k) -` (fst ` set entries))"
    using inj by (intro finite_vimageI) simp_all
  ultimately show ?thesis
    by (rule finite_subset)
qed

lemma finite_placeholders:
  "finite {k. fs_exists fs (sport_placeholder parent_dir k)}"
  "finite {k. fs_exists fs (stadium_placeholder parent_dir k)}"
proof -
  have sport: "path_parts (sport_placeholder parent_dir k) =
      path_parts parent_dir @ (''sportType_'' @ py_str k) # [''stadiumName'', ''categoryName'']" for k
    using placeholder_name_ok [of "''sportType_''" k]
    by (simp add: sport_placeholder_def path_parts_join)
  have stadium: "path_parts (stadium_placeholder parent_dir k) =
      path_parts parent_dir @ (''stadiumName_'' @ py_str k) # [''categoryName'']" for k
    using placeholder_name_ok [of "''stadiumName_''" k]
    by (simp add: stadium_placeholder_def path_parts_join)
  have "{k. fs_exists fs (sport_placeholder parent_dir k)}
          \<subseteq> {k. \<exists>rest. lookup fs (path_parts parent_dir @ (''sportType_'' @ py_str k) # rest) \<noteq> None}"
    unfolding fs_exists_def sport by blast
  then show "finite {k. fs_exists fs (sport_placeholder parent_dir k)}"
    using finite_numbered_children by (rule finite_subset)
  have "{k. fs_exists fs (stadium_placeholder parent_dir k)}
          \<subseteq> {k. \<exists>rest. lookup fs (path_parts parent_dir @ (''stadiumName_'' @ py_str k) # rest) \<noteq> None}"
    unfolding fs_exists_def stadium by blast
  then show "finite {k. fs_exists fs (stadium_placeholder parent_dir k)}"
    using finite_numbered_children by (rule finite_subset)
qed

lemma first_free_index_total:
  assumes "finite {k. taken k}"
  shows "\<exists>j \<ge> i. first_free_index taken i = Some j \<and> \<not> taken j"
proof -
  have "\<exists>m::nat. \<not> taken (i + int m)"
  proof (rule ccontr)
    assume "\<not> (\<exists>m::nat. \<not> taken (i + int m))"
    then have "range (\<lambda>m::nat. i + int m) \<subseteq> {k. taken k}"
      by auto
    moreover have "infinite (range (\<lambda>m::nat. i + int m))"
    proof
      assume "finite (range (\<lambda>m::nat. i + int m))"
      then have "finite (UNIV :: nat set)"
        by (rule finite_imageD) (simp add: inj_on_def)
      then show False by simp
    qed
    ultimately show False
      using assms finite_subset by blast
  qed
  then obtain m where m: "\<not> taken (i + int m)" "\<forall>l < m. taken (i + int l)"
    using exists_least_iff [of "\<lambda>m. \<not> taken (i + int m)"] by auto
  have "\<forall>k. i \<le> k \<and> k < i + int m \<longrightarrow> taken k"
  proof (intro allI impI)
    fix k assume k: "i \<le> k \<and> k < i + int m"
    then have "nat (k - i) < m" "k = i + int (nat (k - i))"
      by auto
    then show "taken k"
      using m(2) by metis
  qed
  then have "first_free_index taken i = Some (i + int m)"
    using m(1) by (intro first_free_index_skips) auto
  then show ?thesis
    using m(1) by auto
qed

text \<open>
  The search for an unused placeholder always ends: a directory has finitely many
  entries and different indices give different names, so \<open>create_extra_folder\<close>
  returns (a result or the exception of \<^verbatim>\<open>mkdir\<close>) on every tree.
\<close>

lemma create_extra_folder_returns:
  "\<exists>r. create_extra_folder fs self parent_path drilling_depth = Some r"
proof -
  obtain j where "first_free_index (\<lambda>i. fs_exists fs (stadium_placeholder (dirname parent_path) i))
                    (stadium_folder_index self) = Some j"
    using first_free_index_total [OF finite_placeholders(2)] by blast
  moreover obtain j' where "first_free_index (\<lambda>i. fs_exists fs (sport_placeholder (dirname parent_path) i))
                    (sport_folder_index self) = Some j'"
    using first_free_index_total [OF finite_placeholders(1)] by blast
  ultimately show ?thesis
    by (simp add: create_extra_folder_def Let_def split: sum.splits)
qed

lemma traverse_sport_items_returns:
  "\<exists>r. traverse_sport_items fs self pattern create_folders items = Some r"
proof (induction items)
  case Nil
  show ?case by simp
next
  case (Cons item items)
  obtain r where "create_extra_folder fs self item 2 = Some r"
    using create_extra_folder_returns by blast
  then show ?case
    using Cons.IH by (auto split: sum.splits prod.splits)
qed

lemma traverse_sport_type_returns:
  "\<exists>r. traverse_sport_type fs self item pattern create_folders = Some r"
proof (cases "fs_iterdir fs item")
  case (Inl e)
  then show ?thesis by (simp add: traverse_sport_type_def)
next
  case (Inr items)
  then show ?thesis
    using traverse_sport_items_returns by (simp add: traverse_sport_type_def)
qed

lemma scan_base_items_returns:
  "\<exists>r. scan_base_items pattern create_folders items fs self event_path_list = Some r"
proof (induction items arbitrary: fs self event_path_list)
  case Nil
  show ?case by simp
next
  case (Cons item items)
  let ?self1 = "self\<lparr>stadium_folder_index := 1\<rparr>"
  obtain r where r: "create_extra_folder fs ?self1 item 3 = Some r"
    using create_extra_folder_returns by blast
  obtain t where t: "traverse_sport_type fs ?self1 item pattern create_folders = Some t"
    using traverse_sport_type_returns by blast
  show ?case
    using Cons.IH r t by (auto simp: Let_def split: sum.splits prod.splits)
qed

lemma get_json_files_returns:
  "\<exists>r. get_json_files fs self base_path event_name_set_test set_name_set_test create_folders = Some r"
proof (cases "fs_exists fs base_path")
  case False
  then show ?thesis by (simp add: get_json_files_def Let_def)
next
  case True
  show ?thesis
  proof (cases "fs_iterdir fs base_path")
    case (Inl e)
    then show ?thesis using True by (simp add: get_json_files_def Let_def)
  next
    case (Inr items)
    obtain r where "scan_base_items event_name_set_test create_folders items fs
                      (self\<lparr>sport_folder_index := 1\<rparr>) [] = Some r"
      using scan_base_items_returns by blast
    then show ?thesis
      using True Inr by (auto simp: get_json_files_def Let_def split: sum.splits prod.splits)
  qed
qed

text \<open>
  Discovery returns on every tree, with or without folder creation: neither
  \<open>create_extra_folder\<close> nor \<open>get_json_files\<close> can loop forever.
\<close>

theorem discovery_returns:
  "(\<exists>r. create_extra_folder fs self parent_path drilling_depth = Some r)
   \<and> (\<exists>r. get_json_files fs self base_path event_name_set_test set_name_set_test create_folders
           = Some r)"
  using create_extra_folder_returns get_json_files_returns by blast

end
